(* ===== verification/Prelude.thy ===== *)
theory Prelude
  imports Main "HOL-Library.Word" "HOL-Library.Signed_Division"
begin

unbundle bit_operations_syntax

text \<open>
  Shared vocabulary of the development: names for the machine types the sources use, the
  collections of simplification rules the component theories add to, and the generic facts
  about lists, words and C integer division that more than one component needs.

  Unsigned C++ integers are words of their width (\<open>u8\<close>, \<open>u16\<close>, \<open>u32\<close>, \<open>u64\<close>), byte
  buffers are lists of \<open>u8\<close>. \<open>std::size_t\<close> offsets into one buffer are \<open>nat\<close>: they are
  bounded by the size of an object in memory, so the additions on them cannot wrap.
  Signed 64-bit times are \<open>int\<close>, with truncating division (\<open>sdiv\<close>, \<open>smod\<close>) as in C++.
\<close>

section \<open>Machine types\<close>

type_synonym u8 = "8 word"
type_synonym u16 = "16 word"
type_synonym u32 = "32 word"
type_synonym u64 = "64 word"
type_synonym bytes = "u8 list"

named_theorems byte_simps "reading back what the byte writers wrote"
named_theorems inv_defs "definitions of the component invariants"
named_theorems op_defs "definitions of the component operations"

section \<open>Big-endian integers in byte lists\<close>

text \<open>
  The byte at an offset; the sources only read offsets they have checked against the size,
  and every use in the models carries that check.
\<close>

definition byte_at :: "bytes \<Rightarrow> nat \<Rightarrow> u8" where
  "byte_at d i = (if i < length d then d ! i else 0)"

definition be16_at :: "bytes \<Rightarrow> nat \<Rightarrow> u16" where
  "be16_at d i = push_bit 8 (ucast (byte_at d i)) OR ucast (byte_at d (i + 1))"

definition be32_at :: "bytes \<Rightarrow> nat \<Rightarrow> u32" where
  "be32_at d i =
     push_bit 24 (ucast (byte_at d i)) OR push_bit 16 (ucast (byte_at d (i + 1))) OR
     push_bit 8 (ucast (byte_at d (i + 2))) OR ucast (byte_at d (i + 3))"

definition be16_bytes :: "u16 \<Rightarrow> bytes" where
  "be16_bytes v = [ucast (drop_bit 8 v), ucast (v AND 0xff)]"

definition be32_bytes :: "u32 \<Rightarrow> bytes" where
  "be32_bytes v =
     [ucast (drop_bit 24 v), ucast (drop_bit 16 v AND 0xff),
      ucast (drop_bit 8 v AND 0xff), ucast (v AND 0xff)]"

lemma length_be16_bytes [simp]: "length (be16_bytes v) = 2"
  by (simp add: be16_bytes_def)

lemma length_be32_bytes [simp]: "length (be32_bytes v) = 4"
  by (simp add: be32_bytes_def)

lemma byte_at_append1 [byte_simps]: "i < length xs \<Longrightarrow> byte_at (xs @ ys) i = byte_at xs i"
  by (simp add: byte_at_def nth_append)

lemma byte_at_append2 [byte_simps]: "length xs \<le> i \<Longrightarrow> byte_at (xs @ ys) i = byte_at ys (i - length xs)"
  by (auto simp: byte_at_def nth_append)

lemma ff_mask: "(255 :: 'a :: len word) = mask 8"
  by (simp add: mask_eq_exp_minus_1)

lemma be16_join:
  "push_bit 8 (ucast (ucast (drop_bit 8 v) :: u8)) OR ucast (ucast (v AND 0xff) :: u8) = (v :: u16)"
  (is "?l = v")
proof (rule bit_word_eqI)
  fix n assume "n < LENGTH(16)"
  then show "bit ?l n = bit v n"
    unfolding ff_mask bit_or_iff bit_push_bit_iff bit_unsigned_iff bit_drop_bit_eq bit_and_iff
      bit_mask_iff o_def
    by (cases "n < 8") auto
qed

lemma be32_join:
  "push_bit 24 (ucast (ucast (drop_bit 24 v) :: u8)) OR
   push_bit 16 (ucast (ucast (drop_bit 16 v AND 0xff) :: u8)) OR
   push_bit 8 (ucast (ucast (drop_bit 8 v AND 0xff) :: u8)) OR
   ucast (ucast (v AND 0xff) :: u8) = (v :: u32)" (is "?l = v")
proof (rule bit_word_eqI)
  fix n assume n: "n < LENGTH(32)"
  then consider "n < 8" | "8 \<le> n" "n < 16" | "16 \<le> n" "n < 24" | "24 \<le> n" "n < 32" by force
  then show "bit ?l n = bit v n"
    unfolding ff_mask bit_or_iff bit_push_bit_iff bit_unsigned_iff bit_drop_bit_eq bit_and_iff
      bit_mask_iff o_def
    using n by cases auto
qed

lemma be16_at_bytes [byte_simps]: "be16_at (be16_bytes v @ ys) 0 = v"
  using be16_join [of v]
  by (simp only: be16_at_def be16_bytes_def byte_at_def) simp

lemma be32_at_bytes [byte_simps]: "be32_at (be32_bytes v @ ys) 0 = v"
  using be32_join [of v]
  by (simp only: be32_at_def be32_bytes_def byte_at_def) simp

lemma be16_at_append2 [byte_simps]: "length xs \<le> i \<Longrightarrow> be16_at (xs @ ys) i = be16_at ys (i - length xs)"
  by (simp add: be16_at_def byte_at_append2 Suc_diff_le)

lemma be32_at_append2 [byte_simps]: "length xs \<le> i \<Longrightarrow> be32_at (xs @ ys) i = be32_at ys (i - length xs)"
  by (simp add: be32_at_def byte_at_append2 Suc_diff_le numeral_eq_Suc)

lemma be16_at_append1 [byte_simps]: "i + 1 < length xs \<Longrightarrow> be16_at (xs @ ys) i = be16_at xs i"
  by (simp add: be16_at_def byte_at_append1)

lemma be32_at_append1 [byte_simps]: "i + 3 < length xs \<Longrightarrow> be32_at (xs @ ys) i = be32_at xs i"
  by (simp add: be32_at_def byte_at_append1)

lemma be16_at_whole [byte_simps]: "be16_at (be16_bytes v) 0 = v"
  using be16_at_bytes [of v "[]"] by simp

lemma be32_at_whole [byte_simps]: "be32_at (be32_bytes v) 0 = v"
  using be32_at_bytes [of v "[]"] by simp

section \<open>Lists used as queues and buffers\<close>

lemma sum_list_drop_le: "sum_list (drop n (xs :: nat list)) \<le> sum_list xs"
  by (metis append_take_drop_id le_add2 sum_list_append)

lemma sum_list_take_drop: "sum_list (take n xs) + sum_list (drop n xs) = sum_list (xs :: nat list)"
  by (metis append_take_drop_id sum_list_append)

lemma distinct_butlast_last:
  "xs \<noteq> [] \<Longrightarrow> distinct xs \<Longrightarrow> distinct (butlast xs) \<and> last xs \<notin> set (butlast xs)"
  by (metis append_butlast_last_id distinct.simps(2) distinct1_rotate distinct_butlast rotate1.simps(2))

lemma set_butlast_last: "xs \<noteq> [] \<Longrightarrow> insert (last xs) (set (butlast xs)) = set xs"
  by (metis Un_insert_right append_butlast_last_id list.simps(15) set_append empty_set sup_bot.right_neutral)

end
