(* ===== verification/Std_Map.thy ===== *)
theory Std_Map
  imports Prelude "HOL-Library.List_Lexorder" "HOL-Library.Char_ord"
begin

text \<open>
  The part of \<open>std::map\<close> the program uses: iteration in key order, lookup, insertion if the
  key is absent (\<open>emplace\<close>, \<open>try_emplace\<close>), assignment and erasure. A map is a list of
  entries in strictly increasing key order. \<open>std::string\<close> keys compare byte by byte, which
  is the order of \<open>List_Lexorder\<close> over \<open>Char_ord\<close>.

  The contract the registries and the dispatcher rely on is the locale \<open>std_map\<close>, interpreted
  here on that representation.
\<close>

type_synonym ('k, 'v) smap = "('k \<times> 'v) list"

section \<open>The contract\<close>

locale std_map =
  fixes empty :: "'m"
    and find :: "'m \<Rightarrow> 'k::linorder \<Rightarrow> 'v option"
    and put :: "'k \<Rightarrow> 'v \<Rightarrow> 'm \<Rightarrow> 'm"
    and erase :: "'k \<Rightarrow> 'm \<Rightarrow> 'm"
    and entries :: "'m \<Rightarrow> ('k \<times> 'v) list"
    and ok :: "'m \<Rightarrow> bool"
  assumes find_empty: "find empty k = None"
    and find_put: "ok m \<Longrightarrow> find (put k v m) = (find m)(k \<mapsto> v)"
    and find_erase: "ok m \<Longrightarrow> find (erase k m) = (find m)(k := None)"
    and entries_find: "ok m \<Longrightarrow> (k, v) \<in> set (entries m) \<longleftrightarrow> find m k = Some v"
    and entries_sorted: "ok m \<Longrightarrow> sorted_wrt (<) (map fst (entries m))"
    and ok_empty: "ok empty"
    and ok_put: "ok m \<Longrightarrow> ok (put k v m)"
    and ok_erase: "ok m \<Longrightarrow> ok (erase k m)"
begin

lemma distinct_keys: "ok m \<Longrightarrow> distinct (map fst (entries m))"
  using entries_sorted strict_sorted_iff by blast

lemma find_put_other: "ok m \<Longrightarrow> k' \<noteq> k \<Longrightarrow> find (put k v m) k' = find m k'"
  by (simp add: find_put)

lemma find_erase_other: "ok m \<Longrightarrow> k' \<noteq> k \<Longrightarrow> find (erase k m) k' = find m k'"
  by (simp add: find_erase)

lemma erase_put: "ok m \<Longrightarrow> find m k = None \<Longrightarrow> find (erase k (put k v m)) = find m"
  by (auto simp: find_put find_erase ok_put)

lemma keys_find: "ok m \<Longrightarrow> set (map fst (entries m)) = dom (find m)"
  using entries_find by (force simp: dom_def image_iff)

lemma entries_empty_iff: "ok m \<Longrightarrow> entries m = [] \<longleftrightarrow> find m = Map.empty"
proof
  assume ok: "ok m" and "entries m = []"
  then have "\<And>k v. find m k \<noteq> Some v"
    using entries_find [OF ok] by auto
  then show "find m = Map.empty" by (auto simp: fun_eq_iff intro: option.exhaust)
next
  assume ok: "ok m" and "find m = Map.empty"
  then have "set (entries m) = {}"
    using entries_find [OF ok] by (metis ex_in_conv option.distinct(1) prod.collapse)
  then show "entries m = []" by simp
qed

end

section \<open>Sorted association lists\<close>

abbreviation smap_ok :: "('k::linorder, 'v) smap \<Rightarrow> bool" where
  "smap_ok m \<equiv> sorted_wrt (<) (map fst m)"

fun smap_put :: "'k::linorder \<Rightarrow> 'v \<Rightarrow> ('k, 'v) smap \<Rightarrow> ('k, 'v) smap" where
  "smap_put k v [] = [(k, v)]"
| "smap_put k v ((a, b) # m) =
     (if k < a then (k, v) # (a, b) # m
      else if k = a then (k, v) # m
      else (a, b) # smap_put k v m)"

fun smap_erase :: "'k::linorder \<Rightarrow> ('k, 'v) smap \<Rightarrow> ('k, 'v) smap" where
  "smap_erase k [] = []"
| "smap_erase k ((a, b) # m) = (if k = a then m else (a, b) # smap_erase k m)"

text \<open>\<open>emplace\<close> leaves an existing entry alone and says so.\<close>

definition smap_emplace :: "'k::linorder \<Rightarrow> 'v \<Rightarrow> ('k, 'v) smap \<Rightarrow> ('k, 'v) smap \<times> bool" where
  "smap_emplace k v m = (case map_of m k of None \<Rightarrow> (smap_put k v m, True) | Some _ \<Rightarrow> (m, False))"

lemma set_fst_smap_put: "fst ` set (smap_put k v m) = insert k (fst ` set m)"
  by (induction k v m rule: smap_put.induct) auto

lemma set_smap_erase: "set (smap_erase k m) \<subseteq> set m"
  by (induction k m rule: smap_erase.induct) auto

lemma map_of_smap_put: "map_of (smap_put k v m) = (map_of m)(k \<mapsto> v)"
  by (induction k v m rule: smap_put.induct) (auto simp: fun_eq_iff)

lemma map_of_notin: "\<forall>x \<in> set m. k < fst x \<Longrightarrow> map_of m (k::'k::linorder) = None"
  by (induction m) auto

lemma map_of_smap_erase: "smap_ok m \<Longrightarrow> map_of (smap_erase k m) = (map_of m)(k := None)"
proof (induction k m rule: smap_erase.induct)
  case (2 k a b m)
  then have "\<forall>x \<in> set m. a < fst x" by simp
  then have "map_of m a = None" by (rule map_of_notin)
  with 2 show ?case by (auto simp: fun_eq_iff)
qed simp

lemma smap_ok_put: "smap_ok m \<Longrightarrow> smap_ok (smap_put k v m)"
proof (induction k v m rule: smap_put.induct)
  case (2 k v a b m)
  then show ?case
    using set_fst_smap_put [of k v m] by (auto simp: image_iff Ball_def)
qed simp

lemma smap_ok_erase: "smap_ok m \<Longrightarrow> smap_ok (smap_erase k m)"
proof (induction k m rule: smap_erase.induct)
  case (2 k a b m)
  then show ?case using set_smap_erase [of k m] by auto
qed simp

lemma smap_ok_distinct: "smap_ok m \<Longrightarrow> distinct (map fst m)"
  using strict_sorted_iff by blast

interpretation sm: std_map "[]" map_of smap_put smap_erase "\<lambda>m. m" smap_ok
proof
  fix m :: "('a, 'b) smap" and k v
  show "smap_ok m \<Longrightarrow> (k, v) \<in> set m \<longleftrightarrow> map_of m k = Some v"
    by (simp add: smap_ok_distinct)
qed (auto simp: map_of_smap_put map_of_smap_erase smap_ok_put smap_ok_erase)

lemma smap_emplace_find:
  "map_of (fst (smap_emplace k v m)) =
     (if map_of m k = None then (map_of m)(k \<mapsto> v) else map_of m)"
  by (auto simp: smap_emplace_def map_of_smap_put split: option.splits)

lemma smap_emplace_inserted: "snd (smap_emplace k v m) \<longleftrightarrow> map_of m k = None"
  by (auto simp: smap_emplace_def split: option.splits)

lemma smap_ok_emplace: "smap_ok m \<Longrightarrow> smap_ok (fst (smap_emplace k v m))"
  by (auto simp: smap_emplace_def smap_ok_put split: option.splits)

lemmas smap_laws = sm.find_put sm.find_erase sm.ok_put sm.ok_erase smap_ok_emplace
  smap_emplace_find smap_emplace_inserted

end
