(* ===== verification/Media_Types.thy ===== *)
theory Media_Types
  imports Std_Map
begin

text \<open>
  The data every part of the media core passes around: \<open>media/core/media_types.h\<close> (track and
  frame types) and the time conversions of \<open>media/codec/codec_utils.cpp\<close>.
  A frame's \<open>payload\<close> is a \<open>shared_ptr\<close> to a constant buffer, hence an option;
  \<open>length_prefixed\<close> records whether the frame carries the shared converter object.
\<close>

section \<open>Tracks and frames\<close>

datatype media_kind = Audio | Video

datatype codec_id = H264 | H265 | AAC | Opus | G711a | G711u

type_synonym track_id = u32

record media_track =
  mt_id :: track_id
  mt_kind :: media_kind
  mt_codec :: codec_id
  mt_clock_rate :: u32
  mt_channel_count :: u16
  mt_codec_config :: bytes

record media_frame =
  mf_track :: track_id
  mf_dts_ns :: int
  mf_pts_ns :: int
  mf_key_frame :: bool
  mf_payload :: "bytes option"
  mf_length_prefixed :: bool

fun kind_to_string :: "media_kind \<Rightarrow> string" where
  "kind_to_string Audio = ''audio''"
| "kind_to_string Video = ''video''"

fun codec_to_string :: "codec_id \<Rightarrow> string" where
  "codec_to_string H264 = ''h264''"
| "codec_to_string H265 = ''h265''"
| "codec_to_string AAC = ''aac''"
| "codec_to_string Opus = ''opus''"
| "codec_to_string G711a = ''g711a''"
| "codec_to_string G711u = ''g711u''"

lemma codec_to_string_inj: "codec_to_string a = codec_to_string b \<longleftrightarrow> a = b"
  by (cases a; cases b) auto

section \<open>Time bases\<close>

definition ns_per_second :: int where "ns_per_second = 1000000000"
definition ns_per_millisecond :: int where "ns_per_millisecond = 1000000"

definition milliseconds_to_ns :: "int \<Rightarrow> int" where
  "milliseconds_to_ns value = value * ns_per_millisecond"

definition ns_to_milliseconds :: "int \<Rightarrow> int" where
  "ns_to_milliseconds value = value sdiv ns_per_millisecond"

definition ns_to_flv_milliseconds :: "int \<Rightarrow> u32" where
  "ns_to_flv_milliseconds value = word_of_int (ns_to_milliseconds value)"

definition ns_to_90khz :: "int \<Rightarrow> int" where
  "ns_to_90khz value =
     (let seconds = value sdiv ns_per_second;
          nanoseconds = value smod ns_per_second
      in seconds * 90000 + (nanoseconds * 90000) sdiv ns_per_second)"

lemmas time_defs = ns_per_second_def ns_per_millisecond_def milliseconds_to_ns_def
  ns_to_milliseconds_def ns_to_flv_milliseconds_def ns_to_90khz_def

lemma sdiv_nonneg_eq: "0 \<le> (a::int) \<Longrightarrow> 0 < b \<Longrightarrow> a sdiv b = a div b"
  by (cases "a = 0") (simp_all add: signed_divide_int_def)

lemma sdiv_neg_eq: "(a::int) < 0 \<Longrightarrow> 0 < b \<Longrightarrow> a sdiv b = - ((- a) div b)"
  by (simp add: signed_divide_int_def)

lemma smod_nonneg_eq: "0 \<le> (a::int) \<Longrightarrow> 0 < b \<Longrightarrow> a smod b = a mod b"
  by (cases "a = 0") (simp_all add: signed_modulo_int_def sdiv_nonneg_eq minus_div_mult_eq_mod)

lemma smod_neg_eq: "(a::int) < 0 \<Longrightarrow> 0 < b \<Longrightarrow> a smod b = - ((- a) mod b)"
  using minus_div_mult_eq_mod [of "- a" b]
  by (simp add: signed_modulo_int_def sdiv_neg_eq)

text \<open>Splitting into seconds and nanoseconds loses nothing on non-negative times.\<close>

lemma split_second_scale:
  "0 \<le> v \<Longrightarrow> v div 1000000000 * 90000 + (v mod 1000000000) * 90000 div 1000000000 = v * 90000 div (1000000000::int)"
proof -
  have "v * 90000 = (v mod 1000000000) * 90000 + v div 1000000000 * 90000 * 1000000000"
    using div_mult_mod_eq [of v 1000000000] by linarith
  then show ?thesis by (simp only: div_mult_self1)
qed

text \<open>
  \<open>ns_to_90khz\<close> is the exact scaling \<open>v * 90000 / 10^9\<close> rounded towards zero, for every
  sign: the split into whole seconds only avoids the 64-bit overflow of the product.
\<close>

lemma ns_to_90khz_exact: "ns_to_90khz v = (v * 90000) sdiv 1000000000"
proof (cases "0 \<le> v")
  case True
  then show ?thesis
    using split_second_scale [of v]
    by (simp add: ns_to_90khz_def Let_def ns_per_second_def sdiv_nonneg_eq smod_nonneg_eq)
next
  case False
  define w where "w = - v"
  have w: "0 < w" "v = - w" using False by (auto simp: w_def)
  show ?thesis
    using w split_second_scale [of w]
    by (simp add: ns_to_90khz_def Let_def ns_per_second_def sdiv_nonneg_eq smod_nonneg_eq)
qed

lemma ns_milliseconds_roundtrip: "ns_to_milliseconds (milliseconds_to_ns v) = v"
  by (cases "0 \<le> v") (simp_all add: time_defs sdiv_nonneg_eq sdiv_neg_eq)

lemma sdiv_mono:
  assumes "(a::int) \<le> b" "0 < c"
  shows "a sdiv c \<le> b sdiv c"
proof -
  consider "0 \<le> a" | "a < 0" "0 \<le> b" | "b < 0" by linarith
  then show ?thesis
  proof cases
    case 2
    then have "a sdiv c \<le> 0" "0 \<le> b sdiv c"
      using assms by (simp_all add: sdiv_nonneg_eq sdiv_neg_eq pos_imp_zdiv_nonneg_iff)
    then show ?thesis by linarith
  qed (use assms in \<open>simp_all add: sdiv_nonneg_eq sdiv_neg_eq zdiv_mono1\<close>)
qed

lemma ns_to_90khz_mono: "a \<le> b \<Longrightarrow> ns_to_90khz a \<le> ns_to_90khz b"
  by (simp add: ns_to_90khz_exact sdiv_mono)

end
