(* ===== verification/Rtmp_Timestamp.thy ===== *)
theory Rtmp_Timestamp
  imports Media_Types
begin

text \<open>
  \<open>media/rtmp/rtmp_timestamp.h\<close>: extending the 32-bit millisecond timestamps of RTMP
  messages to a 64-bit time line. \<open>unwrap_rtmp_timestamp\<close> returns the extended time and the
  updated state.
\<close>

record rtmp_timestamp_state =
  rts_last :: u32
  rts_milliseconds :: int
  rts_started :: bool

definition rtmp_timestamp_initial :: rtmp_timestamp_state where
  "rtmp_timestamp_initial = \<lparr>rts_last = 0, rts_milliseconds = 0, rts_started = False\<rparr>"

definition rtmp_timestamp_delta :: "u32 \<Rightarrow> u32 \<Rightarrow> int" where
  "rtmp_timestamp_delta current previous =
     (let cycle = 2 ^ 32; half_cycle = 2 ^ 31 :: u32; delta = current - previous
      in if delta < half_cycle then uint delta else uint delta - cycle)"

definition unwrap_rtmp_timestamp :: "u32 \<Rightarrow> rtmp_timestamp_state \<Rightarrow> int \<times> rtmp_timestamp_state" where
  "unwrap_rtmp_timestamp timestamp state =
     (if \<not> rts_started state
      then (let ms = uint timestamp
            in (ms, state\<lparr>rts_last := timestamp, rts_milliseconds := ms, rts_started := True\<rparr>))
      else (let ms = rts_milliseconds state + rtmp_timestamp_delta timestamp (rts_last state)
            in (ms, state\<lparr>rts_milliseconds := ms, rts_last := timestamp\<rparr>)))"

text \<open>The extended times of a sequence of messages of one track.\<close>

fun unwrap_all :: "rtmp_timestamp_state \<Rightarrow> u32 list \<Rightarrow> int list" where
  "unwrap_all s [] = []"
| "unwrap_all s (t # ts) = (let (ms, s') = unwrap_rtmp_timestamp t s in ms # unwrap_all s' ts)"

lemma rtmp_timestamp_delta_of_int:
  assumes "- (2 ^ 31) \<le> d" "d < 2 ^ 31"
  shows "rtmp_timestamp_delta (word_of_int (x + d)) (word_of_int x) = d"
proof (cases "0 \<le> d")
  case True
  then have "uint (word_of_int d :: u32) = d"
    using assms by (simp add: uint_word_of_int take_bit_int_eq_self)
  then show ?thesis
    using True assms by (simp add: rtmp_timestamp_delta_def word_less_def)
next
  case False
  have "d mod 2 ^ 32 = (d + 2 ^ 32) mod 2 ^ 32" by simp
  also have "\<dots> = d + 2 ^ 32" using False assms by (subst mod_pos_pos_trivial) auto
  finally have "uint (word_of_int d :: u32) = d + 2 ^ 32"
    by (simp add: uint_word_of_int)
  then show ?thesis
    using False assms by (simp add: rtmp_timestamp_delta_def word_less_def)
qed

text \<open>A time line whose neighbouring times are less than half a cycle apart.\<close>

fun within_half_cycle :: "int \<Rightarrow> int list \<Rightarrow> bool" where
  "within_half_cycle x [] = True"
| "within_half_cycle x (y # ys) = (- (2 ^ 31) \<le> y - x \<and> y - x < 2 ^ 31 \<and> within_half_cycle y ys)"

lemma unwrap_all_running:
  assumes "rts_started s" "rts_last s = word_of_int x" "rts_milliseconds s = x + c"
    and "within_half_cycle x xs"
  shows "unwrap_all s (map word_of_int xs) = map (\<lambda>y. y + c) xs"
  using assms
proof (induction xs arbitrary: s x)
  case (Cons y ys)
  let ?s' = "s\<lparr>rts_milliseconds := y + c, rts_last := word_of_int y\<rparr>"
  have d: "rtmp_timestamp_delta (word_of_int y) (word_of_int x) = y - x"
    using rtmp_timestamp_delta_of_int [of "y - x" x] Cons.prems(4) by simp
  have "unwrap_rtmp_timestamp (word_of_int y) s = (y + c, ?s')"
    using Cons.prems by (simp add: unwrap_rtmp_timestamp_def d Let_def)
  moreover have "unwrap_all ?s' (map word_of_int ys) = map (\<lambda>y. y + c) ys"
    using Cons.prems by (intro Cons.IH [of _ y]) simp_all
  ultimately show ?case by simp
qed simp

section \<open>Wrap-around is invisible\<close>

lemma unwrap_first:
  "unwrap_rtmp_timestamp t rtmp_timestamp_initial =
     (uint t, \<lparr>rts_last = t, rts_milliseconds = uint t, rts_started = True\<rparr>)"
  by (simp add: unwrap_rtmp_timestamp_def rtmp_timestamp_initial_def Let_def)



end
