(* ===== verification/Port_Pool.thy ===== *)
theory Port_Pool
  imports Prelude
begin

text \<open>
  \<open>media/net/media_port_pool.cpp\<close>: the process-wide pool of even media ports. Each acquired
  port \<open>p\<close> stands for the RTP/RTCP pair \<open>p\<close>, \<open>p + 1\<close>. The vectors are used as stacks
  (\<open>back\<close>, \<open>pop_back\<close>, \<open>push_back\<close>). Sessions rely on the contract \<open>resource_pool\<close>.
\<close>

section \<open>The contract of a pool\<close>

locale resource_pool =
  fixes acquire :: "'s \<Rightarrow> 'r option \<times> 's"
    and release :: "'r \<Rightarrow> 's \<Rightarrow> 's"
    and free :: "'s \<Rightarrow> 'r set"
    and busy :: "'s \<Rightarrow> 'r set"
    and ok :: "'s \<Rightarrow> bool"
  assumes acquire_some:
      "ok s \<Longrightarrow> acquire s = (Some r, s') \<Longrightarrow>
         r \<in> free s \<and> free s' = free s - {r} \<and> busy s' = insert r (busy s) \<and> ok s'"
    and acquire_none: "ok s \<Longrightarrow> acquire s = (None, s') \<Longrightarrow> s' = s \<and> free s = {}"
    and release_busy:
      "ok s \<Longrightarrow> r \<in> busy s \<Longrightarrow>
         free (release r s) = insert r (free s) \<and> busy (release r s) = busy s - {r} \<and> ok (release r s)"
    and release_foreign: "ok s \<Longrightarrow> r \<notin> busy s \<Longrightarrow> release r s = s"
    and disjoint: "ok s \<Longrightarrow> free s \<inter> busy s = {}"
begin

lemma acquire_cases:
  assumes "ok s"
  obtains (none) "acquire s = (None, s)" "free s = {}"
  | (some) r s' where "acquire s = (Some r, s')" "r \<in> free s" "r \<notin> busy s"
      "free s' = free s - {r}" "busy s' = insert r (busy s)" "ok s'"
proof (cases "acquire s")
  case (Pair r s')
  show ?thesis
  proof (cases r)
    case None
    with Pair acquire_none [OF assms, of s'] show ?thesis by (intro none) auto
  next
    case (Some x)
    with Pair acquire_some [OF assms, of x s'] disjoint [OF assms] show ?thesis
      by (intro some) auto
  qed
qed

lemma acquire_ok: "ok s \<Longrightarrow> ok (snd (acquire s))"
  by (rule acquire_cases [of s]) simp_all

lemma release_ok: "ok s \<Longrightarrow> ok (release r s)"
  by (cases "r \<in> busy s") (simp_all add: release_busy release_foreign)

lemma acquire_conserves: "ok s \<Longrightarrow> free (snd (acquire s)) \<union> busy (snd (acquire s)) = free s \<union> busy s"
  by (rule acquire_cases [of s]) auto

lemma release_conserves: "ok s \<Longrightarrow> free (release r s) \<union> busy (release r s) = free s \<union> busy s"
  by (cases "r \<in> busy s") (auto simp: release_busy release_foreign)

lemma acquire_exclusive: "ok s \<Longrightarrow> acquire s = (Some r, s') \<Longrightarrow> r \<notin> busy s \<and> r \<in> busy s'"
  by (rule acquire_cases [of s]) auto

lemma acquire_twice:
  assumes "ok s" "acquire s = (Some r, s')" "acquire s' = (Some r', s'')"
  shows "r \<noteq> r'"
proof -
  have "ok s'" "r \<in> busy s'"
    using acquire_some [OF assms(1,2)] by simp_all
  then show ?thesis using acquire_exclusive [OF _ assms(3)] by blast
qed

lemma acquire_release:
  assumes "ok s" "acquire s = (Some r, s')"
  shows "free (release r s') = free s \<and> busy (release r s') = busy s"
proof -
  note a = acquire_some [OF assms] acquire_exclusive [OF assms]
  then have "free (release r s') = insert r (free s') \<and> busy (release r s') = busy s' - {r}"
    using release_busy [of s' r] by blast
  with a show ?thesis by auto
qed

end

section \<open>The pool\<close>

definition media_port_start :: int where "media_port_start = 49152"
definition media_port_end :: int where "media_port_end = 65535"

record media_port_pool =
  available_ports :: "u16 list"
  used_ports :: "u16 list"

text \<open>The constructor's loop, from the highest even port down.\<close>

function fill_ports :: "int \<Rightarrow> u16 list" where
  "fill_ports port =
     (if port \<ge> media_port_start then word_of_int port # fill_ports (port - 2) else [])"
  by pat_completeness auto
termination
  by (relation "measure (\<lambda>port. nat (port - media_port_start + 2))") auto

declare fill_ports.simps [simp del]

definition new_media_port_pool :: media_port_pool where
  "new_media_port_pool =
     \<lparr>available_ports = fill_ports ((media_port_end - 1) AND NOT 1), used_ports = []\<rparr>"

text \<open>\<open>init\<close> and \<open>instance\<close> call \<open>std::terminate\<close> when misused: \<open>None\<close>.\<close>

definition media_port_pool_init :: "media_port_pool option \<Rightarrow> media_port_pool option option" where
  "media_port_pool_init pool_instance =
     (case pool_instance of Some _ \<Rightarrow> None | None \<Rightarrow> Some (Some new_media_port_pool))"

definition media_port_pool_instance :: "media_port_pool option \<Rightarrow> media_port_pool option" where
  "media_port_pool_instance pool_instance = pool_instance"

definition acquire :: "media_port_pool \<Rightarrow> u16 option \<times> media_port_pool" where
  "acquire p =
     (if available_ports p = [] then (None, p)
      else let port = last (available_ports p)
           in (Some port, p\<lparr>available_ports := butlast (available_ports p),
                            used_ports := used_ports p @ [port]\<rparr>))"

definition release :: "u16 \<Rightarrow> media_port_pool \<Rightarrow> media_port_pool" where
  "release port p =
     (if port \<in> set (used_ports p)
      then p\<lparr>used_ports := remove1 port (used_ports p),
             available_ports := available_ports p @ [port]\<rparr>
      else p)"

definition port_pool_inv :: "media_port_pool \<Rightarrow> bool" where
  "port_pool_inv p \<longleftrightarrow> distinct (available_ports p @ used_ports p)"

interpretation ports: resource_pool acquire release
  "\<lambda>p. set (available_ports p)" "\<lambda>p. set (used_ports p)" port_pool_inv
proof
  fix s s' :: media_port_pool and r
  assume inv: "port_pool_inv s"
  {
    assume "acquire s = (Some r, s')"
    then have ne: "available_ports s \<noteq> []" and r: "r = last (available_ports s)"
      and s': "available_ports s' = butlast (available_ports s)" "used_ports s' = used_ports s @ [r]"
      by (auto simp: acquire_def Let_def split: if_splits)
    then show "r \<in> set (available_ports s) \<and>
        set (available_ports s') = set (available_ports s) - {r} \<and>
        set (used_ports s') = insert r (set (used_ports s)) \<and> port_pool_inv s'"
      using inv distinct_butlast_last [OF ne] set_butlast_last [OF ne]
      by (auto simp: port_pool_inv_def)
  next
    assume "acquire s = (None, s')"
    then show "s' = s \<and> set (available_ports s) = {}"
      by (auto simp: acquire_def Let_def split: if_splits)
  next
    assume "r \<in> set (used_ports s)"
    then show "set (available_ports (release r s)) = insert r (set (available_ports s)) \<and>
        set (used_ports (release r s)) = set (used_ports s) - {r} \<and> port_pool_inv (release r s)"
      using inv by (auto simp: release_def port_pool_inv_def)
  next
    assume "r \<notin> set (used_ports s)"
    then show "release r s = s" by (simp add: release_def)
  next
    show "set (available_ports s) \<inter> set (used_ports s) = {}"
      using inv by (auto simp: port_pool_inv_def)
  }
qed

section \<open>The ports handed out\<close>

lemma even_step:
  assumes "a \<le> port"
  shows "x = port \<or> (a \<le> x \<and> x \<le> port - 2 \<and> even (port - 2 - x)) \<longleftrightarrow>
    a \<le> x \<and> x \<le> port \<and> even (port - x :: int)"
proof -
  have parity: "even (port - 2 - x) \<longleftrightarrow> even (port - x)" by simp
  consider "x = port" | "x = port - 1" | "x \<le> port - 2" | "port < x" by linarith
  then show ?thesis
    using assms by cases (simp_all add: parity)
qed

lemma set_fill_ports:
  assumes "port < 2 ^ 16"
  shows "p \<in> set (fill_ports port) \<longleftrightarrow>
    media_port_start \<le> uint p \<and> uint p \<le> port \<and> even (port - uint p)"
  using assms
proof (induction port rule: fill_ports.induct)
  case (1 port)
  show ?case
  proof (cases "media_port_start \<le> port")
    case True
    then have u: "uint (word_of_int port :: u16) = port"
      using "1.prems" by (simp add: uint_word_of_int take_bit_int_eq_self media_port_start_def)
    have eq: "p = word_of_int port \<longleftrightarrow> uint p = port"
      using u by (metis word_uint_eq_iff)
    have IH: "p \<in> set (fill_ports (port - 2)) \<longleftrightarrow>
        media_port_start \<le> uint p \<and> uint p \<le> port - 2 \<and> even (port - 2 - uint p)"
      using "1.IH" [OF True] "1.prems" by simp
    have "p \<in> set (fill_ports port) \<longleftrightarrow> p = word_of_int port \<or> p \<in> set (fill_ports (port - 2))"
      using True by (subst fill_ports.simps) simp
    also have "\<dots> \<longleftrightarrow> uint p = port \<or>
        (media_port_start \<le> uint p \<and> uint p \<le> port - 2 \<and> even (port - 2 - uint p))"
      using eq IH by simp
    also have "\<dots> \<longleftrightarrow> media_port_start \<le> uint p \<and> uint p \<le> port \<and> even (port - uint p)"
      using True by (rule even_step)
    finally show ?thesis .
  next
    case False
    then show ?thesis by (subst fill_ports.simps) auto
  qed
qed

lemma distinct_fill_ports: "port < 2 ^ 16 \<Longrightarrow> distinct (fill_ports port)"
proof (induction port rule: fill_ports.induct)
  case (1 port)
  show ?case
  proof (cases "media_port_start \<le> port")
    case True
    then have u: "uint (word_of_int port :: u16) = port"
      using "1.prems" by (simp add: uint_word_of_int take_bit_int_eq_self media_port_start_def)
    have "word_of_int port \<notin> set (fill_ports (port - 2))"
      using set_fill_ports [of "port - 2" "word_of_int port"] "1.prems" u by simp
    with 1 True show ?thesis by (subst fill_ports.simps) simp
  next
    case False
    then show ?thesis by (subst fill_ports.simps) simp
  qed
qed

definition media_ports :: "u16 set" where
  "media_ports = {p. media_port_start \<le> uint p \<and> uint p < media_port_end \<and> even (uint p)}"

lemma new_media_port_pool_ports: "set (available_ports new_media_port_pool) = media_ports"
proof -
  have top: "(media_port_end - 1) AND NOT 1 = 65534" by (simp add: media_port_end_def)
  have "p \<in> set (fill_ports 65534) \<longleftrightarrow> p \<in> media_ports" for p
    using set_fill_ports [of 65534 p] by (auto simp: media_ports_def media_port_end_def)
  then have "set (fill_ports 65534) = media_ports" by blast
  then show ?thesis by (simp only: new_media_port_pool_def top media_port_pool.simps)
qed

lemma new_media_port_pool_inv: "port_pool_inv new_media_port_pool"
  by (simp add: port_pool_inv_def new_media_port_pool_def media_port_end_def distinct_fill_ports)

text \<open>Every history of the pool: the order in which sessions acquire and release is free.\<close>

inductive pool_reachable :: "media_port_pool \<Rightarrow> bool" where
  pool_init: "pool_reachable new_media_port_pool"
| pool_acquire: "pool_reachable p \<Longrightarrow> pool_reachable (snd (acquire p))"
| pool_release: "pool_reachable p \<Longrightarrow> pool_reachable (release port p)"

lemma pool_reachable_inv:
  "pool_reachable p \<Longrightarrow>
     port_pool_inv p \<and> set (available_ports p) \<union> set (used_ports p) = media_ports"
proof (induction rule: pool_reachable.induct)
  case pool_init
  then show ?case
    by (simp add: new_media_port_pool_inv new_media_port_pool_ports) (simp add: new_media_port_pool_def)
next
  case (pool_acquire p)
  then show ?case by (simp add: ports.acquire_ok ports.acquire_conserves)
next
  case (pool_release p port)
  then show ?case by (simp add: ports.release_ok ports.release_conserves)
qed

text \<open>
  C38: in every history of the pool an acquired port is an even port of the configured range
  and the RTP/RTCP pair it stands for is disjoint from the pair of every port then in use;
  acquiring fails only when every port of the range is in use; and no port is ever lost:
  free and used ports together stay the whole range.
\<close>

theorem acquired_pair_is_exclusive:
  assumes "pool_reachable p" and "acquire p = (r, p')"
  shows "set (available_ports p') \<union> set (used_ports p') = media_ports \<and>
    set (available_ports p') \<inter> set (used_ports p') = {} \<and>
    (case r of
       None \<Rightarrow> set (used_ports p) = media_ports
     | Some port \<Rightarrow> port \<in> media_ports \<and> port \<in> set (used_ports p') \<and>
         (\<forall>q \<in> set (used_ports p). {uint port, uint port + 1} \<inter> {uint q, uint q + 1} = {}))"
proof -
  have inv: "port_pool_inv p" and all: "set (available_ports p) \<union> set (used_ports p) = media_ports"
    using pool_reachable_inv [OF assms(1)] by auto
  have inv': "port_pool_inv p'" and all': "set (available_ports p') \<union> set (used_ports p') = media_ports"
    using pool_reachable_inv [OF pool_acquire [OF assms(1)]] assms(2) by auto
  have pair: "{uint r, uint r + 1} \<inter> {uint q, uint q + 1} = {}"
    if "r \<in> media_ports" "q \<in> media_ports" "r \<noteq> q" for r q
    using that by (auto simp: media_ports_def word_uint_eq_iff) presburger+
  from inv show ?thesis
  proof (cases rule: ports.acquire_cases)
    case none
    then show ?thesis using assms(2) all all' by auto
  next
    case (some x s')
    then have "x \<in> media_ports" "\<forall>q \<in> set (used_ports p). q \<in> media_ports \<and> q \<noteq> x"
      using all by auto
    then show ?thesis
      using some assms(2) all' pair ports.disjoint [OF inv'] by auto
  qed
qed

lemma new_pool_last: "last (available_ports new_media_port_pool) = 49152"
proof -
  have last_fill: "last (fill_ports port) = 49152"
    if "49152 \<le> port" "even port" for port
    using that
  proof (induction port rule: fill_ports.induct)
    case (1 port)
    show ?case
    proof (cases "49152 \<le> port - 2")
      case True
      with 1 have "last (fill_ports (port - 2)) = 49152"
        by (simp add: media_port_start_def)
      moreover have "fill_ports (port - 2) \<noteq> []"
        using True by (subst fill_ports.simps) (simp add: media_port_start_def)
      ultimately show ?thesis
        using 1(2) by (subst fill_ports.simps) (simp add: media_port_start_def)
    next
      case False
      then have "port = 49152 \<or> port = 49153" using 1(2) by auto
      then have "port = 49152" using 1(3) by auto
      moreover have "fill_ports 49150 = []"
        by (subst fill_ports.simps) (simp add: media_port_start_def)
      ultimately show ?thesis by (subst fill_ports.simps) (simp add: media_port_start_def)
    qed
  qed
  show ?thesis
    by (simp add: new_media_port_pool_def media_port_end_def last_fill)
qed

lemma new_pool_nonempty: "available_ports new_media_port_pool \<noteq> []"
  by (simp add: new_media_port_pool_def media_port_end_def fill_ports.simps [of 65534]
      media_port_start_def)

theorem acquired_pair_is_exclusive_witness:
  "fst (acquire new_media_port_pool) = Some 49152 \<and> (49152 :: u16) \<in> media_ports"
proof -
  obtain p' where a: "acquire new_media_port_pool = (Some 49152, p')"
    by (simp add: acquire_def new_pool_nonempty new_pool_last)
  from acquired_pair_is_exclusive [OF pool_init this] show ?thesis
    using a by simp
qed

end
