(* ===== verification/Worker_Pool.thy ===== *)
theory Worker_Pool
  imports Prelude
begin

text \<open>
  \<open>media/net/worker_pool.cpp\<close>: the worker a connection is placed on. \<open>next\<close> goes round
  robin over an atomic counter; \<open>lease\<close> picks the worker with the fewest outstanding leases
  and counts one more there; destroying a lease that still points to the pool gives it back.
  Counters are \<open>std::size_t\<close>, kept at their width. The worker objects themselves and the
  threads that run them are not part of the placement state.
\<close>

record worker_pool =
  wp_leases :: "u64 list"
  wp_next :: u64

record worker_lease =
  wl_pool :: bool
  wl_index :: nat

definition new_worker_pool :: "nat \<Rightarrow> worker_pool" where
  "new_worker_pool n = \<lparr>wp_leases = replicate n 0, wp_next = 0\<rparr>"

definition pool_size :: "worker_pool \<Rightarrow> nat" where
  "pool_size p = length (wp_leases p)"

definition next_worker :: "worker_pool \<Rightarrow> nat \<times> worker_pool" where
  "next_worker p = (unat (wp_next p) mod pool_size p, p\<lparr>wp_next := wp_next p + 1\<rparr>)"

text \<open>\<open>std::ranges::min_element\<close>: the first position of a smallest element.\<close>

fun min_element :: "u64 list \<Rightarrow> nat" where
  "min_element [] = 0"
| "min_element [x] = 0"
| "min_element (x # y # xs) =
     (let j = min_element (y # xs) in if (y # xs) ! j < x then Suc j else 0)"

definition lease :: "worker_pool \<Rightarrow> worker_lease \<times> worker_pool" where
  "lease p =
     (let index = min_element (wp_leases p)
      in (\<lparr>wl_pool = True, wl_index = index\<rparr>,
          p\<lparr>wp_leases := (wp_leases p)[index := wp_leases p ! index + 1]\<rparr>))"

definition release_index :: "nat \<Rightarrow> worker_pool \<Rightarrow> worker_pool" where
  "release_index index p = p\<lparr>wp_leases := (wp_leases p)[index := wp_leases p ! index - 1]\<rparr>"

text \<open>Moving a lease leaves the source empty, so only one of the two gives the worker back.\<close>

definition move_lease :: "worker_lease \<Rightarrow> worker_lease \<times> worker_lease" where
  "move_lease other = (\<lparr>wl_pool = wl_pool other, wl_index = wl_index other\<rparr>, other\<lparr>wl_pool := False\<rparr>)"

definition destroy_lease :: "worker_lease \<Rightarrow> worker_pool \<Rightarrow> worker_pool" where
  "destroy_lease l p = (if wl_pool l then release_index (wl_index l) p else p)"

section \<open>The smallest element\<close>

lemma min_element_less: "xs \<noteq> [] \<Longrightarrow> min_element xs < length xs"
  by (induction xs rule: min_element.induct) (auto simp: Let_def)

lemma min_element_min: "x \<in> set xs \<Longrightarrow> xs ! min_element xs \<le> x"
proof (induction xs arbitrary: x rule: min_element.induct)
  case (3 a b xs)
  let ?j = "min_element (b # xs)"
  have least: "(b # xs) ! ?j \<le> y" if "y \<in> set (b # xs)" for y
    using "3.IH" that by blast
  have "?j < length (b # xs)" by (rule min_element_less) simp
  then have mem: "(b # xs) ! ?j \<in> set (b # xs)" by (rule nth_mem)
  show ?case
  proof (cases "(b # xs) ! ?j < a")
    case True
    then show ?thesis using "3.prems" least by (auto simp: Let_def)
  next
    case False
    then have "a \<le> (b # xs) ! ?j" by simp
    then have "a \<le> y" if "y \<in> set (b # xs)" for y
      using least [OF that] by (rule order_trans)
    with False show ?thesis using "3.prems" by (auto simp: Let_def)
  qed
qed auto

section \<open>Counting outstanding leases\<close>

text \<open>
  \<open>counts p out\<close>: \<open>out\<close> lists the indices of the leases that are alive, and the pool's
  counters are exactly the number of those per worker.
\<close>

definition counts :: "worker_pool \<Rightarrow> nat list \<Rightarrow> bool" where
  "counts p out \<longleftrightarrow> length out < 2 ^ 64 \<and> set out \<subseteq> {..<pool_size p} \<and>
     (\<forall>i < pool_size p. unat (wp_leases p ! i) = count_list out i)"

lemma count_list_le_length: "count_list xs x \<le> length xs"
  by (induction xs) auto

lemma count_list_remove1_if:
  "x \<in> set xs \<Longrightarrow> count_list (remove1 x xs) y = (if y = x then count_list xs y - 1 else count_list xs y)"
  by (induction xs) (auto simp: count_list_0_iff)

lemma counts_new: "counts (new_worker_pool n) []"
  by (simp add: counts_def new_worker_pool_def pool_size_def)

lemma counts_lease:
  assumes "counts p out" "0 < pool_size p" "length out + 1 < 2 ^ 64" "lease p = (l, p')"
  shows "counts p' (wl_index l # out)" "pool_size p' = pool_size p"
    and "wl_pool l" "wl_index l < pool_size p"
    and "\<forall>j < pool_size p. count_list out (wl_index l) \<le> count_list out j"
proof -
  let ?ls = "wp_leases p" and ?i = "min_element (wp_leases p)"
  have l: "wl_index l = ?i" "wl_pool l" "p' = p\<lparr>wp_leases := ?ls[?i := ?ls ! ?i + 1]\<rparr>"
    using assms(4) by (auto simp: lease_def Let_def)
  have i: "?i < length ?ls"
    using assms(2) by (intro min_element_less) (auto simp: pool_size_def)
  show "wl_pool l" "pool_size p' = pool_size p" "wl_index l < pool_size p"
    using l i by (simp_all add: pool_size_def)
  have c: "unat (?ls ! ?i) = count_list out ?i"
    using assms(1) i by (simp add: counts_def pool_size_def)
  have "unat (?ls ! ?i + 1) = count_list out ?i + 1"
    using c count_list_le_length [of out ?i] assms(3)
    by (simp add: unat_word_ariths)
  then show "counts p' (wl_index l # out)"
    using assms(1,3) l i by (auto simp: counts_def pool_size_def nth_list_update)
  show "\<forall>j < pool_size p. count_list out (wl_index l) \<le> count_list out j"
  proof (intro allI impI)
    fix j assume j: "j < pool_size p"
    then have "?ls ! ?i \<le> ?ls ! j"
      by (intro min_element_min) (simp add: pool_size_def)
    then show "count_list out (wl_index l) \<le> count_list out j"
      using assms(1) c j l by (simp add: counts_def word_le_nat_alt)
  qed
qed

lemma counts_destroy:
  assumes "counts p out" "wl_pool l" "wl_index l \<in> set out"
  shows "counts (destroy_lease l p) (remove1 (wl_index l) out)"
proof -
  let ?i = "wl_index l"
  have i: "?i < pool_size p" and c: "unat (wp_leases p ! ?i) = count_list out ?i"
    using assms by (auto simp: counts_def)
  have pos: "0 < count_list out ?i"
    using assms(3) by (simp add: count_list_0_iff zero_less_iff_neq_zero)
  then have "unat (wp_leases p ! ?i - 1) = count_list out ?i - 1"
    using c by (metis unat_minus_one unat_0 less_numeral_extra(3))
  then show ?thesis
    using assms i
    by (auto simp: counts_def destroy_lease_def release_index_def pool_size_def nth_list_update
        count_list_remove1_if length_remove1 dest: in_set_remove1 [THEN iffD1] notin_set_remove1)
qed

section \<open>Properties\<close>

text \<open>
  A lease is always placed on a worker with the fewest leases outstanding, and the pool's
  counters stay the exact number of live leases per worker.
\<close>

lemma lease_least_loaded:
  assumes "counts p out" "0 < pool_size p" "length out + 1 < 2 ^ 64"
  shows "case lease p of (l, p') \<Rightarrow>
     counts p' (wl_index l # out) \<and> wl_index l < pool_size p \<and>
     (\<forall>j < pool_size p. count_list out (wl_index l) \<le> count_list out j)"
  using counts_lease [OF assms] by (cases "lease p") auto

end
