(* ===== verification/Tcp_Transport.thy ===== *)
theory Tcp_Transport
  imports Prelude "HOL-Library.Sublist"
begin

text \<open>
  \<open>media/net/tcp_transport.cpp\<close>: the serialised write queue of one TCP connection. The
  functions below are the parts that run on the socket's executor: \<open>safe_write\<close>,
  \<open>post_write\<close>, \<open>on_write\<close> and \<open>safe_shutdown\<close>; \<open>write\<close> and \<open>shutdown\<close> only move
  there. \<open>std::function\<close> members count by whether they are set; what the callback is called
  with is logged, and all callbacks of the program answer an error by posting a shutdown and
  a success by nothing.

  Three fields belong to the environment rather than to the object: the \<open>async_write\<close>
  operations in flight (a list, so that "at most one" is a theorem), the bytes of the
  operations that completed (\<open>tt_wire\<close>), and the bytes accepted by \<open>safe_write\<close>
  (\<open>tt_accepted\<close>). No operation reads the last two.
\<close>

datatype write_error = NoBufferSpace | IoError

record tcp_transport =
  tt_open :: bool
  tt_queued_write_bytes :: nat
  tt_write_queue :: "bytes list"
  tt_write_callback :: bool
  tt_inflight :: "bytes list list"
  tt_wire :: bytes
  tt_accepted :: bytes
  tt_calls :: "(write_error option \<times> nat) list"

definition write_high_water_mark :: nat where "write_high_water_mark = 1024 * 1024"

definition new_tcp_transport :: tcp_transport where
  "new_tcp_transport =
     \<lparr>tt_open = True, tt_queued_write_bytes = 0, tt_write_queue = [], tt_write_callback = False,
      tt_inflight = [], tt_wire = [], tt_accepted = [], tt_calls = []\<rparr>"

definition set_write_callback :: "tcp_transport \<Rightarrow> tcp_transport" where
  "set_write_callback s = s\<lparr>tt_write_callback := True\<rparr>"

definition post_write :: "tcp_transport \<Rightarrow> tcp_transport" where
  "post_write s = (let batch = tt_write_queue s in s\<lparr>tt_inflight := tt_inflight s @ [batch]\<rparr>)"

definition safe_write :: "bytes \<Rightarrow> tcp_transport \<Rightarrow> tcp_transport" where
  "safe_write data s =
     (if \<not> tt_open s \<or> \<not> tt_write_callback s then s
      else let writing = tt_write_queue s \<noteq> [] in
        if writing \<and>
           tt_queued_write_bytes s - length (hd (tt_write_queue s)) + length data > write_high_water_mark
        then s\<lparr>tt_write_callback := False, tt_calls := tt_calls s @ [(Some NoBufferSpace, 0)]\<rparr>
        else let s' = s\<lparr>tt_queued_write_bytes := tt_queued_write_bytes s + length data,
                        tt_write_queue := tt_write_queue s @ [data],
                        tt_accepted := tt_accepted s @ data\<rparr>
             in if writing then s' else post_write s')"

text \<open>\<open>write\<close> drops empty buffers before it moves to the executor.\<close>

definition tcp_write :: "bytes \<Rightarrow> tcp_transport \<Rightarrow> tcp_transport" where
  "tcp_write data s = (if data = [] then s else safe_write data s)"

text \<open>The loop of \<open>on_write\<close> that drops \<open>count\<close> buffers from the front.\<close>

fun pop_written :: "nat \<Rightarrow> tcp_transport \<Rightarrow> tcp_transport" where
  "pop_written 0 s = s"
| "pop_written (Suc n) s =
     pop_written n (s\<lparr>tt_queued_write_bytes := tt_queued_write_bytes s - length (hd (tt_write_queue s)),
                      tt_write_queue := tl (tt_write_queue s)\<rparr>)"

definition on_write :: "write_error option \<Rightarrow> nat \<Rightarrow> nat \<Rightarrow> tcp_transport \<Rightarrow> tcp_transport" where
  "on_write error nbytes count s =
     (if \<not> tt_open s \<or> tt_write_queue s = [] \<or> \<not> tt_write_callback s then s
      else let s1 = (if error = None then pop_written count s else s);
               s2 = s1\<lparr>tt_calls := tt_calls s1 @ [(error, nbytes)]\<rparr>
           in if error \<noteq> None then s2
              else if tt_write_queue s2 \<noteq> [] \<and> tt_write_callback s2 then post_write s2
              else s2)"

definition safe_shutdown :: "tcp_transport \<Rightarrow> tcp_transport" where
  "safe_shutdown s =
     s\<lparr>tt_write_queue := [], tt_queued_write_bytes := 0, tt_write_callback := False, tt_open := False\<rparr>"

text \<open>
  Completion of the operation in flight: all its bytes went out, or it failed after some
  prefix of them did.
\<close>

definition complete_ok :: "tcp_transport \<Rightarrow> tcp_transport" where
  "complete_ok s =
     (case tt_inflight s of [] \<Rightarrow> s
      | b # bs \<Rightarrow> on_write None (length (concat b)) (length b)
          (s\<lparr>tt_inflight := bs, tt_wire := tt_wire s @ concat b\<rparr>))"

definition complete_error :: "nat \<Rightarrow> tcp_transport \<Rightarrow> tcp_transport" where
  "complete_error n s =
     (case tt_inflight s of [] \<Rightarrow> s
      | b # bs \<Rightarrow> on_write (Some IoError) n (length b) (s\<lparr>tt_inflight := bs\<rparr>))"

text \<open>
  The life of a transport: the owner installs the callback before the first write and never
  again; writes, completions and the shutdown arrive in any order.
\<close>

inductive tcp_step :: "tcp_transport \<Rightarrow> tcp_transport \<Rightarrow> bool" where
  step_write: "tcp_step s (tcp_write data s)"
| step_complete_ok: "tt_inflight s \<noteq> [] \<Longrightarrow> tcp_step s (complete_ok s)"
| step_complete_error: "tt_inflight s \<noteq> [] \<Longrightarrow> tcp_step s (complete_error n s)"
| step_shutdown: "tcp_step s (safe_shutdown s)"

inductive tcp_reachable :: "tcp_transport \<Rightarrow> bool" where
  tcp_start: "tcp_reachable (set_write_callback new_tcp_transport)"
| tcp_next: "tcp_reachable s \<Longrightarrow> tcp_step s t \<Longrightarrow> tcp_reachable t"

section \<open>The invariant\<close>

definition no_errors :: "tcp_transport \<Rightarrow> bool" where
  "no_errors s \<longleftrightarrow> (\<forall>(e, n) \<in> set (tt_calls s). e = None)"

abbreviation queue_bytes :: "bytes list \<Rightarrow> nat" where
  "queue_bytes q \<equiv> sum_list (map length q)"

definition tcp_inv :: "tcp_transport \<Rightarrow> bool" where
  "tcp_inv s \<longleftrightarrow>
     tt_queued_write_bytes s = queue_bytes (tt_write_queue s) \<and>
     queue_bytes (tl (tt_write_queue s)) \<le> write_high_water_mark \<and>
     length (tt_inflight s) \<le> 1 \<and>
     (\<not> tt_open s \<longrightarrow> tt_write_queue s = [] \<and> \<not> tt_write_callback s) \<and>
     (\<forall>b. tt_open s \<and> tt_inflight s = [b] \<longrightarrow>
        b \<noteq> [] \<and> prefix b (tt_write_queue s) \<and>
        tt_accepted s = tt_wire s @ concat (tt_write_queue s)) \<and>
     (tt_open s \<and> no_errors s \<longrightarrow>
        tt_write_callback s \<and> (tt_write_queue s \<noteq> [] \<longrightarrow> tt_inflight s \<noteq> []) \<and>
        tt_accepted s = tt_wire s @ concat (tt_write_queue s)) \<and>
     (tt_open s \<and> \<not> no_errors s \<longrightarrow>
        tt_write_queue s \<noteq> [] \<and> (tt_write_callback s \<longrightarrow> tt_inflight s = [])) \<and>
     prefix (tt_wire s @ concat (concat (tt_inflight s))) (tt_accepted s)"

lemma pop_written_eq:
  "n \<le> length (tt_write_queue s) \<Longrightarrow> tt_queued_write_bytes s = queue_bytes (tt_write_queue s) \<Longrightarrow>
   pop_written n s =
     s\<lparr>tt_queued_write_bytes := queue_bytes (drop n (tt_write_queue s)),
       tt_write_queue := drop n (tt_write_queue s)\<rparr>"
proof (induction n arbitrary: s)
  case (Suc n)
  then obtain x xs where q: "tt_write_queue s = x # xs" by (cases "tt_write_queue s") auto
  show ?case
    using Suc.prems q by (simp add: Suc.IH)
qed simp

lemma tcp_inv_start: "tcp_inv (set_write_callback new_tcp_transport)"
  by (simp add: tcp_inv_def new_tcp_transport_def set_write_callback_def no_errors_def)

lemma no_errors_snoc [simp]:
  "no_errors (s\<lparr>tt_calls := tt_calls s @ [(e, n)]\<rparr>) \<longleftrightarrow> no_errors s \<and> e = None"
  by (auto simp: no_errors_def)

lemma safe_write_cases:
  obtains (ignored) "\<not> tt_open s \<or> \<not> tt_write_callback s" "safe_write data s = s"
  | (first) "tt_open s" "tt_write_callback s" "tt_write_queue s = []"
      "safe_write data s =
         s\<lparr>tt_queued_write_bytes := tt_queued_write_bytes s + length data, tt_write_queue := [data],
           tt_accepted := tt_accepted s @ data, tt_inflight := tt_inflight s @ [[data]]\<rparr>"
  | (refused) q qs where "tt_open s" "tt_write_callback s" "tt_write_queue s = q # qs"
      "safe_write data s =
         s\<lparr>tt_write_callback := False, tt_calls := tt_calls s @ [(Some NoBufferSpace, 0)]\<rparr>"
  | (queued) q qs where "tt_open s" "tt_write_callback s" "tt_write_queue s = q # qs"
      "tt_queued_write_bytes s - length q + length data \<le> write_high_water_mark"
      "safe_write data s =
         s\<lparr>tt_queued_write_bytes := tt_queued_write_bytes s + length data,
           tt_write_queue := q # qs @ [data], tt_accepted := tt_accepted s @ data\<rparr>"
proof -
  consider "\<not> tt_open s \<or> \<not> tt_write_callback s"
    | "tt_open s" "tt_write_callback s" "tt_write_queue s = []"
    | q qs where "tt_open s" "tt_write_callback s" "tt_write_queue s = q # qs"
    by (cases "tt_write_queue s") auto
  then show thesis
  proof cases
    case (3 q qs)
    then show thesis
      by (cases "tt_queued_write_bytes s - length q + length data > write_high_water_mark")
        (auto simp: safe_write_def Let_def intro: refused queued)
  qed (auto simp: safe_write_def post_write_def Let_def intro: ignored first)
qed

lemma tcp_inv_write:
  assumes "tcp_inv s"
  shows "tcp_inv (safe_write data s)"
proof (cases rule: safe_write_cases [of s data])
  case ignored
  then show ?thesis using assms by simp
next
  case first
  then have "no_errors s" "tt_inflight s = []"
    using assms by (auto simp: tcp_inv_def neq_Nil_conv length_Suc_conv le_Suc_eq)
  with first show ?thesis
    using assms by (simp add: tcp_inv_def no_errors_def)
next
  case (refused q qs)
  then show ?thesis
    using assms by (simp add: tcp_inv_def) (simp add: no_errors_def)
next
  case (queued q qs)
  have grow: "prefix b (q # qs @ [data])" if "prefix b (q # qs)" for b
    using prefix_prefix [OF that, of "[data]"] by simp
  from queued show ?thesis
    using assms by (simp add: tcp_inv_def no_errors_def prefix_prefix) (simp add: grow)
qed

lemma tcp_inv_complete_ok:
  assumes inv: "tcp_inv s" and "tt_inflight s \<noteq> []"
  shows "tcp_inv (complete_ok s)"
proof -
  from assms obtain b where b: "tt_inflight s = [b]"
    by (cases "tt_inflight s") (auto simp: tcp_inv_def)
  let ?s = "s\<lparr>tt_inflight := [], tt_wire := tt_wire s @ concat b\<rparr>"
  show ?thesis
  proof (cases "tt_open s \<and> tt_write_callback s")
    case False
    then have "complete_ok s = ?s"
      using b by (auto simp: complete_ok_def on_write_def)
    then show ?thesis
      using inv b False by (simp add: tcp_inv_def no_errors_def)
  next
    case True
    then obtain rest where q: "tt_write_queue s = b @ rest" and ne: "b \<noteq> []"
      and w: "tt_accepted s = tt_wire s @ concat b @ concat rest"
      using inv b by (auto simp: tcp_inv_def prefix_def)
    have ok: "no_errors s"
      using inv b True by (auto simp: tcp_inv_def)
    have pop: "pop_written (length b) ?s =
        ?s\<lparr>tt_queued_write_bytes := queue_bytes rest, tt_write_queue := rest\<rparr>"
      using inv q by (subst pop_written_eq) (auto simp: tcp_inv_def)
    have "queue_bytes rest \<le> queue_bytes (tl (b @ rest))"
      using ne by (cases b) auto
    then have "queue_bytes rest \<le> write_high_water_mark"
      using inv q by (simp add: tcp_inv_def)
    then have "queue_bytes (tl rest) \<le> write_high_water_mark"
      by (cases rest) auto
    then show ?thesis
      using True b q ne w ok pop
      by (simp add: complete_ok_def on_write_def tcp_inv_def post_write_def Let_def no_errors_def)
  qed
qed

lemma tcp_inv_complete_error:
  assumes inv: "tcp_inv s" and "tt_inflight s \<noteq> []"
  shows "tcp_inv (complete_error n s)"
proof -
  from assms obtain b where b: "tt_inflight s = [b]"
    by (cases "tt_inflight s") (auto simp: tcp_inv_def)
  show ?thesis
  proof (cases "tt_open s \<and> tt_write_callback s")
    case False
    then have "complete_error n s = s\<lparr>tt_inflight := []\<rparr>"
      using b by (auto simp: complete_error_def on_write_def)
    moreover have "no_errors (s\<lparr>tt_inflight := []\<rparr>) = no_errors s"
      by (simp add: no_errors_def)
    moreover have "prefix (tt_wire s) (tt_accepted s)"
      using inv by (auto simp: tcp_inv_def dest: append_prefixD)
    ultimately show ?thesis
      using inv b False by (simp add: tcp_inv_def)
  next
    case True
    then have "tt_write_queue s \<noteq> []"
      using inv b by (auto simp: tcp_inv_def)
    with True b have "complete_error n s =
        s\<lparr>tt_inflight := [], tt_calls := tt_calls s @ [(Some IoError, n)]\<rparr>" (is "_ = ?t")
      by (simp add: complete_error_def on_write_def Let_def)
    moreover have "\<not> no_errors ?t" by (auto simp: no_errors_def)
    moreover have "prefix (tt_wire s) (tt_accepted s)"
      using inv by (auto simp: tcp_inv_def dest: append_prefixD)
    moreover have "tcp_inv s" by (rule inv)
    ultimately show ?thesis
      using \<open>tt_write_queue s \<noteq> []\<close> True by (simp add: tcp_inv_def)
  qed
qed

lemma tcp_inv_shutdown: "tcp_inv s \<Longrightarrow> tcp_inv (safe_shutdown s)"
  by (simp add: tcp_inv_def safe_shutdown_def)

lemma tcp_step_inv: "tcp_step s t \<Longrightarrow> tcp_inv s \<Longrightarrow> tcp_inv t"
  by (induction rule: tcp_step.induct)
    (simp_all add: tcp_write_def tcp_inv_write tcp_inv_complete_ok tcp_inv_complete_error
      tcp_inv_shutdown)

lemma tcp_reachable_inv: "tcp_reachable s \<Longrightarrow> tcp_inv s"
  by (induction rule: tcp_reachable.induct) (auto intro: tcp_inv_start tcp_step_inv)

section \<open>What the transport promises\<close>


definition two_writes :: tcp_transport where
  "two_writes = tcp_write [3, 4] (tcp_write [1, 2] (set_write_callback new_tcp_transport))"

lemma tcp_reachable_two_writes: "tcp_reachable two_writes"
  unfolding two_writes_def
  by (intro tcp_next [OF _ step_write] tcp_start)

lemma two_writes_eq:
  "two_writes = \<lparr>tt_open = True, tt_queued_write_bytes = 4, tt_write_queue = [[1, 2], [3, 4]],
     tt_write_callback = True, tt_inflight = [[[1, 2]]], tt_wire = [], tt_accepted = [1, 2, 3, 4],
     tt_calls = []\<rparr>"
  by (simp add: two_writes_def tcp_write_def safe_write_def post_write_def new_tcp_transport_def
      set_write_callback_def Let_def write_high_water_mark_def)


lemma complete_ok_idle: "tt_inflight s = [] \<Longrightarrow> complete_ok s = s"
  by (simp add: complete_ok_def)

lemma complete_ok_result:
  assumes "tcp_inv s" "tt_open s" "no_errors s" "tt_inflight s = [b]" "tt_write_queue s = b @ rest"
  shows "tt_write_queue (complete_ok s) = rest"
    and "tt_inflight (complete_ok s) = (if rest = [] then [] else [rest])"
    and "tt_wire (complete_ok s) = tt_wire s @ concat b"
    and "tt_accepted (complete_ok s) = tt_accepted s"
    and "tt_open (complete_ok s)" and "no_errors (complete_ok s)"
proof -
  have "b \<noteq> []" "tt_write_callback s" "tt_queued_write_bytes s = queue_bytes (b @ rest)"
    using assms by (auto simp: tcp_inv_def)
  then have "complete_ok s =
      s\<lparr>tt_inflight := (if rest = [] then [] else [rest]), tt_wire := tt_wire s @ concat b,
        tt_queued_write_bytes := queue_bytes rest, tt_write_queue := rest,
        tt_calls := tt_calls s @ [(None, length (concat b))]\<rparr>"
    using assms
    by (simp add: complete_ok_def on_write_def pop_written_eq post_write_def Let_def)
  then show "tt_write_queue (complete_ok s) = rest"
    and "tt_inflight (complete_ok s) = (if rest = [] then [] else [rest])"
    and "tt_wire (complete_ok s) = tt_wire s @ concat b"
    and "tt_accepted (complete_ok s) = tt_accepted s"
    and "tt_open (complete_ok s)" and "no_errors (complete_ok s)"
    using assms(2,3) by (auto simp: no_errors_def)
qed

text \<open>
  The queue never stalls. While the connection is open and no error was reported, two
  successful completions with no further writes send everything that was accepted, empty
  the queue and leave no operation outstanding.
\<close>

lemma tcp_two_completions_drain:
  assumes "tcp_reachable s" "tt_open s" "no_errors s"
  defines "t \<equiv> complete_ok (complete_ok s)"
  shows "tt_write_queue t = [] \<and> tt_inflight t = [] \<and> tt_wire t = tt_accepted s \<and> tt_open t"
proof (cases "tt_inflight s")
  case Nil
  with assms tcp_reachable_inv [OF assms(1)] show ?thesis
    by (auto simp: complete_ok_idle tcp_inv_def)
next
  case (Cons b bs)
  have inv: "tcp_inv s" by (rule tcp_reachable_inv [OF assms(1)])
  with Cons assms obtain rest where fl: "tt_inflight s = [b]" and q: "tt_write_queue s = b @ rest"
    and acc: "tt_accepted s = tt_wire s @ concat b @ concat rest"
    by (auto simp: tcp_inv_def prefix_def)
  note one = complete_ok_result [OF inv assms(2,3) fl q]
  show ?thesis
  proof (cases "rest = []")
    case True
    with one acc show ?thesis by (simp add: t_def complete_ok_idle)
  next
    case False
    have inv1: "tcp_inv (complete_ok s)"
      by (rule tcp_inv_complete_ok [OF inv]) (simp add: fl)
    note two = complete_ok_result [OF inv1 one(5,6), of rest "[]"]
    from two one False acc show ?thesis by (simp add: t_def)
  qed
qed

lemma tcp_step_silent:
  assumes "tcp_step s t" "\<not> tt_write_callback s"
  shows "\<not> tt_write_callback t \<and> tt_accepted t = tt_accepted s \<and> tt_calls t = tt_calls s \<and>
    (tt_inflight t = tt_inflight s \<or> tt_inflight t = tl (tt_inflight s))"
  using assms
  by (induction rule: tcp_step.induct)
    (auto simp: tcp_write_def safe_write_def complete_ok_def complete_error_def on_write_def
      safe_shutdown_def split: list.splits)

lemma tcp_steps_silent:
  assumes "tcp_step\<^sup>*\<^sup>* s t" "\<not> tt_write_callback s" "length (tt_inflight s) \<le> 1"
  shows "\<not> tt_write_callback t \<and> tt_accepted t = tt_accepted s \<and> tt_calls t = tt_calls s \<and>
    tt_inflight t \<in> {[], tt_inflight s}"
  using assms
proof (induction rule: rtranclp_induct)
  case (step t u)
  then have t: "\<not> tt_write_callback t" "tt_accepted t = tt_accepted s" "tt_calls t = tt_calls s"
    "tt_inflight t \<in> {[], tt_inflight s}" by auto
  have "tl (tt_inflight t) = []"
    using t(4) step.prems(2) by (cases "tt_inflight s") auto
  with tcp_step_silent [OF step.hyps(2) t(1)] t show ?case by auto
qed simp

text \<open>
  Backpressure. A write that would let more than the high-water mark wait behind the
  buffer being written is refused: nothing is queued, the callback is told
  \<open>no_buffer_space\<close> and cleared, and from then on, whatever is written or completes, no byte is
  accepted, no further callback runs and no new operation starts.
\<close>

lemma tcp_overflow_refused:
  assumes "tcp_reachable s" "tt_open s" "tt_write_callback s" "tt_write_queue s = q # qs"
    "queue_bytes qs + length data > write_high_water_mark"
    "tcp_step\<^sup>*\<^sup>* (tcp_write data s) t"
  shows "tt_write_queue (tcp_write data s) = q # qs \<and>
    tt_calls t = tt_calls s @ [(Some NoBufferSpace, 0)] \<and>
    tt_accepted t = tt_accepted s \<and> tt_inflight t \<in> {[], tt_inflight s}"
proof -
  have inv: "tcp_inv s" by (rule tcp_reachable_inv [OF assms(1)])
  then have "queue_bytes qs \<le> write_high_water_mark" "tt_queued_write_bytes s = length q + queue_bytes qs"
    using assms(4) by (auto simp: tcp_inv_def)
  moreover from this assms(5) have "data \<noteq> []" by auto
  ultimately have "tcp_write data s =
      s\<lparr>tt_write_callback := False, tt_calls := tt_calls s @ [(Some NoBufferSpace, 0)]\<rparr>" (is "_ = ?r")
    using assms(2-5) by (simp add: tcp_write_def safe_write_def)
  moreover have "length (tt_inflight ?r) \<le> 1"
    using inv by (simp add: tcp_inv_def)
  ultimately show ?thesis
    using tcp_steps_silent [of ?r t] assms(4,6) by simp
qed

end
