(* ===== verification/Udp_Transport.thy ===== *)
theory Udp_Transport
  imports Prelude "HOL-Library.Sublist"
begin

text \<open>
  \<open>media/net/udp_transport.cpp\<close>: a datagram socket that sends directly while nothing waits
  and queues, in order and within 1 MiB, once the kernel buffer is full. What the operating
  system answers to \<open>open\<close>, \<open>bind\<close>, \<open>send_to\<close>, \<dots> is an argument of the operations.
  Endpoints are opaque.

  As for the TCP transport the record carries fields of the environment that no operation
  reads: the \<open>async_send_to\<close> operations in flight, the datagrams that left (\<open>ut_wire\<close>), the
  datagrams taken over by \<open>write\<close> (\<open>ut_accepted\<close>), whether an operation failed, and the
  number of error callbacks posted and run.
\<close>

datatype udp_error = InvalidArgument | BadDescriptor | OsError nat

datatype send_result = Sent | WouldBlock | SendError

datatype udp_receive_buffer = SystemDefault | MediaInput

record 'e udp_transport =
  ut_open :: bool
  ut_write_queue :: "(bytes \<times> 'e) list"
  ut_queued_write_bytes :: nat
  ut_error_callback :: bool
  ut_inflight :: "(bytes \<times> 'e) list"
  ut_wire :: "(bytes \<times> 'e) list"
  ut_accepted :: "(bytes \<times> 'e) list"
  ut_failed :: bool
  ut_posted_errors :: nat
  ut_errors :: nat

text \<open>The errors of the socket calls of \<open>startup\<close> and \<open>connect\<close>.\<close>

record socket_calls =
  sc_open :: "udp_error option"
  sc_set_option :: "udp_error option"
  sc_non_blocking :: "udp_error option"
  sc_bind :: "udp_error option"
  sc_connect :: "udp_error option"

definition udp_high_water_mark :: nat where "udp_high_water_mark = 1024 * 1024"

definition new_udp_transport :: "'e udp_transport" where
  "new_udp_transport =
     \<lparr>ut_open = False, ut_write_queue = [], ut_queued_write_bytes = 0, ut_error_callback = False,
      ut_inflight = [], ut_wire = [], ut_accepted = [], ut_failed = False, ut_posted_errors = 0,
      ut_errors = 0\<rparr>"

definition udp_startup ::
  "bool \<Rightarrow> udp_receive_buffer \<Rightarrow> socket_calls \<Rightarrow> 'e udp_transport \<Rightarrow> udp_error option \<times> 'e udp_transport" where
  "udp_startup is_unspecified receive_buffer os t =
     (if is_unspecified then (Some InvalidArgument, t)
      else
        let e1 = sc_open os;
            t1 = (if e1 = None then t\<lparr>ut_open := True\<rparr> else t);
            e2 = (if e1 = None \<and> receive_buffer = MediaInput then sc_set_option os else e1);
            e3 = (if e2 = None then sc_non_blocking os else e2);
            e4 = (if e3 = None then sc_bind os else e3)
        in if e4 = None then (None, t1) else (e4, t1\<lparr>ut_open := False\<rparr>))"

definition udp_connect :: "socket_calls \<Rightarrow> 'e udp_transport \<Rightarrow> udp_error option" where
  "udp_connect os t = (if \<not> ut_open t then Some BadDescriptor else sc_connect os)"

definition set_error_callback :: "'e udp_transport \<Rightarrow> 'e udp_transport" where
  "set_error_callback t = t\<lparr>ut_error_callback := True\<rparr>"

definition start_write :: "'e udp_transport \<Rightarrow> 'e udp_transport" where
  "start_write t = t\<lparr>ut_inflight := ut_inflight t @ [hd (ut_write_queue t)]\<rparr>"

definition enqueue_datagram :: "bytes \<Rightarrow> 'e \<Rightarrow> 'e udp_transport \<Rightarrow> bool \<times> 'e udp_transport" where
  "enqueue_datagram data endpoint t =
     (if length data > udp_high_water_mark \<or>
         ut_queued_write_bytes t > udp_high_water_mark - length data
      then (False, t)
      else let start = (ut_write_queue t = []);
               t' = t\<lparr>ut_queued_write_bytes := ut_queued_write_bytes t + length data,
                      ut_write_queue := ut_write_queue t @ [(data, endpoint)],
                      ut_accepted := ut_accepted t @ [(data, endpoint)]\<rparr>
           in (True, if start then start_write t' else t'))"

text \<open>\<open>r\<close> is what \<open>send_to\<close> answers; it is asked only when nothing is queued.\<close>

definition udp_write :: "send_result \<Rightarrow> bytes \<Rightarrow> 'e \<Rightarrow> 'e udp_transport \<Rightarrow> bool \<times> 'e udp_transport" where
  "udp_write r data endpoint t =
     (if \<not> ut_open t then (False, t)
      else if ut_write_queue t = [] \<and> r \<noteq> WouldBlock
      then (True, if r = SendError then t\<lparr>ut_posted_errors := ut_posted_errors t + 1\<rparr>
                  else t\<lparr>ut_wire := ut_wire t @ [(data, endpoint)],
                         ut_accepted := ut_accepted t @ [(data, endpoint)]\<rparr>)
      else enqueue_datagram data endpoint t)"

definition run_posted_error :: "'e udp_transport \<Rightarrow> 'e udp_transport" where
  "run_posted_error t =
     t\<lparr>ut_posted_errors := ut_posted_errors t - 1,
       ut_errors := ut_errors t + (if ut_error_callback t then 1 else 0)\<rparr>"

definition udp_on_write :: "bytes \<times> 'e \<Rightarrow> bool \<Rightarrow> 'e udp_transport \<Rightarrow> 'e udp_transport" where
  "udp_on_write datagram error t =
     (if \<not> ut_open t \<or> ut_write_queue t = [] then t
      else if error then t\<lparr>ut_errors := ut_errors t + (if ut_error_callback t then 1 else 0)\<rparr>
      else let t' = t\<lparr>ut_queued_write_bytes := ut_queued_write_bytes t - length (fst datagram),
                      ut_write_queue := tl (ut_write_queue t)\<rparr>
           in if ut_write_queue t' \<noteq> [] then start_write t' else t')"

definition udp_shutdown :: "'e udp_transport \<Rightarrow> 'e udp_transport" where
  "udp_shutdown t =
     t\<lparr>ut_write_queue := [], ut_queued_write_bytes := 0, ut_error_callback := False, ut_open := False\<rparr>"

text \<open>Completion of the operation in flight, with the datagram sent or with an error.\<close>

definition udp_complete :: "bool \<Rightarrow> 'e udp_transport \<Rightarrow> 'e udp_transport" where
  "udp_complete error t =
     (case ut_inflight t of [] \<Rightarrow> t
      | d # ds \<Rightarrow>
          udp_on_write d error
            (if error then t\<lparr>ut_inflight := ds, ut_failed := True\<rparr>
             else t\<lparr>ut_inflight := ds, ut_wire := ut_wire t @ [d]\<rparr>))"

inductive udp_step :: "'e udp_transport \<Rightarrow> 'e udp_transport \<Rightarrow> bool" where
  udp_step_write: "udp_step t (snd (udp_write r data endpoint t))"
| udp_step_complete: "ut_inflight t \<noteq> [] \<Longrightarrow> udp_step t (udp_complete error t)"
| udp_step_posted: "ut_posted_errors t \<noteq> 0 \<Longrightarrow> udp_step t (run_posted_error t)"
| udp_step_callback: "udp_step t (set_error_callback t)"
| udp_step_shutdown: "udp_step t (udp_shutdown t)"

text \<open>A transport that started, in any later state.\<close>

inductive udp_reachable :: "'e udp_transport \<Rightarrow> bool" where
  udp_started: "udp_startup False b os new_udp_transport = (None, t) \<Longrightarrow> udp_reachable t"
| udp_next: "udp_reachable t \<Longrightarrow> udp_step t t' \<Longrightarrow> udp_reachable t'"

section \<open>Starting up\<close>

text \<open>
  Start-up leaves the socket open exactly when it reports no error; an unspecified
  bind address is refused before any socket call, and a failure of any of the calls (the
  receive buffer is only sized for media input) closes the socket again.
\<close>

lemma udp_startup_open_iff:
  "case udp_startup unspecified b os (new_udp_transport :: 'e udp_transport) of (error, t) \<Rightarrow>
     (ut_open t \<longleftrightarrow> error = None) \<and>
     (error = None \<longleftrightarrow> \<not> unspecified \<and> sc_open os = None \<and> sc_non_blocking os = None \<and>
        sc_bind os = None \<and> (b = MediaInput \<longrightarrow> sc_set_option os = None)) \<and>
     (unspecified \<longrightarrow> error = Some InvalidArgument \<and> t = new_udp_transport)"
  by (cases b) (auto simp: udp_startup_def new_udp_transport_def Let_def)

section \<open>The queue\<close>

abbreviation datagram_bytes :: "(bytes \<times> 'e) list \<Rightarrow> nat" where
  "datagram_bytes q \<equiv> sum_list (map (length \<circ> fst) q)"

definition udp_inv :: "'e udp_transport \<Rightarrow> bool" where
  "udp_inv t \<longleftrightarrow>
     ut_queued_write_bytes t = datagram_bytes (ut_write_queue t) \<and>
     ut_queued_write_bytes t \<le> udp_high_water_mark \<and>
     prefix (ut_wire t @ ut_inflight t) (ut_accepted t) \<and>
     length (ut_inflight t) \<le> 1 \<and>
     (\<not> ut_open t \<longrightarrow> ut_write_queue t = []) \<and>
     (ut_open t \<longrightarrow> ut_accepted t = ut_wire t @ ut_write_queue t \<and>
        ut_inflight t = (if ut_failed t then [] else take 1 (ut_write_queue t)) \<and>
        (ut_failed t \<longrightarrow> ut_write_queue t \<noteq> []))"

lemma udp_inv_started:
  "udp_startup False b os new_udp_transport = (None, t) \<Longrightarrow> udp_inv t"
  by (auto simp: udp_startup_def new_udp_transport_def udp_inv_def Let_def split: if_splits)

lemma enqueue_cases:
  obtains (refused) "enqueue_datagram data e t = (False, t)"
  | (first) "ut_write_queue t = []" "ut_queued_write_bytes t + length data \<le> udp_high_water_mark"
      "enqueue_datagram data e t =
         (True, t\<lparr>ut_queued_write_bytes := ut_queued_write_bytes t + length data,
                  ut_write_queue := [(data, e)], ut_accepted := ut_accepted t @ [(data, e)],
                  ut_inflight := ut_inflight t @ [(data, e)]\<rparr>)"
  | (queued) "ut_write_queue t \<noteq> []" "ut_queued_write_bytes t + length data \<le> udp_high_water_mark"
      "enqueue_datagram data e t =
         (True, t\<lparr>ut_queued_write_bytes := ut_queued_write_bytes t + length data,
                  ut_write_queue := ut_write_queue t @ [(data, e)],
                  ut_accepted := ut_accepted t @ [(data, e)]\<rparr>)"
  by (cases "length data > udp_high_water_mark \<or> ut_queued_write_bytes t > udp_high_water_mark - length data";
      cases "ut_write_queue t = []")
    (auto simp: enqueue_datagram_def start_write_def Let_def)

lemma take1_append: "q \<noteq> [] \<Longrightarrow> take 1 (q @ r) = take 1 q"
  by (cases q) auto

lemma udp_inv_enqueue:
  assumes "udp_inv t" "ut_open t" "ut_write_queue t = [] \<Longrightarrow> \<not> ut_failed t"
  shows "udp_inv (snd (enqueue_datagram data e t))"
proof (cases rule: enqueue_cases [of data e t])
  case refused
  then show ?thesis using assms(1) by simp
next
  case first
  with assms show ?thesis by (simp add: udp_inv_def)
next
  case queued
  with assms(1,2) show ?thesis
    by (cases "ut_write_queue t") (simp_all add: udp_inv_def prefix_prefix)
qed

lemma udp_inv_write:
  assumes "udp_inv t"
  shows "udp_inv (snd (udp_write r data e t))"
proof (cases "ut_open t")
  case True
  have idle: "ut_write_queue t = [] \<Longrightarrow> \<not> ut_failed t \<and> ut_inflight t = [] \<and> ut_wire t = ut_accepted t"
    using assms True by (auto simp: udp_inv_def)
  show ?thesis
  proof (cases "ut_write_queue t = [] \<and> r \<noteq> WouldBlock")
    case direct: True
    then show ?thesis
      using assms True idle by (cases r) (simp_all add: udp_write_def udp_inv_def)
  next
    case False
    then show ?thesis
      using True udp_inv_enqueue [OF assms True] idle by (auto simp: udp_write_def)
  qed
qed (use assms in \<open>simp add: udp_write_def\<close>)

lemma udp_inv_complete:
  assumes inv: "udp_inv t" and "ut_inflight t \<noteq> []"
  shows "udp_inv (udp_complete error t)"
proof -
  obtain d where d: "ut_inflight t = [d]"
    using assms by (cases "ut_inflight t") (auto simp: udp_inv_def)
  show ?thesis
  proof (cases "ut_open t")
    case False
    then show ?thesis
      using inv d by (auto simp: udp_complete_def udp_on_write_def udp_inv_def dest: append_prefixD)
  next
    case True
    then obtain q where q: "ut_write_queue t = d # q" and nf: "\<not> ut_failed t"
      and acc: "ut_accepted t = ut_wire t @ d # q"
      using inv d by (cases "ut_write_queue t") (auto simp: udp_inv_def split: if_splits)
    have len: "ut_queued_write_bytes t = length (fst d) + datagram_bytes q"
      using inv q by (simp add: udp_inv_def)
    show ?thesis
      using inv d q nf acc True len
      by (cases error; cases q) (simp_all add: udp_complete_def udp_on_write_def udp_inv_def start_write_def Let_def)
  qed
qed

lemma udp_step_inv: "udp_step t t' \<Longrightarrow> udp_inv t \<Longrightarrow> udp_inv t'"
proof (induction rule: udp_step.induct)
  case (udp_step_shutdown t)
  then show ?case by (simp add: udp_shutdown_def udp_inv_def)
next
  case (udp_step_posted t)
  then show ?case by (simp add: run_posted_error_def udp_inv_def)
next
  case (udp_step_callback t)
  then show ?case by (simp add: set_error_callback_def udp_inv_def)
qed (auto intro: udp_inv_write udp_inv_complete)

lemma udp_reachable_inv: "udp_reachable t \<Longrightarrow> udp_inv t"
  by (induction rule: udp_reachable.induct) (auto intro: udp_inv_started udp_step_inv)

section \<open>What the transport promises\<close>

text \<open>
  C36: at most one asynchronous send is outstanding and it is the oldest waiting datagram;
  the datagrams that left are a prefix of those accepted, in order, so a datagram that is
  sent directly never overtakes a queued one; and the queue holds at most 1 MiB.
\<close>

theorem udp_write_order:
  assumes "udp_reachable t"
  shows "prefix (ut_wire t) (ut_accepted t) \<and>
    (ut_open t \<longrightarrow> ut_accepted t = ut_wire t @ ut_write_queue t) \<and>
    length (ut_inflight t) \<le> 1 \<and>
    (ut_open t \<and> \<not> ut_failed t \<longrightarrow> ut_inflight t = take 1 (ut_write_queue t)) \<and>
    ut_queued_write_bytes t = datagram_bytes (ut_write_queue t) \<and>
    datagram_bytes (ut_write_queue t) \<le> udp_high_water_mark"
  using udp_reachable_inv [OF assms] by (auto simp: udp_inv_def dest: append_prefixD)

definition udp_sample :: "nat udp_transport" where
  "udp_sample =
     snd (udp_write Sent [3] 7 (snd (udp_write WouldBlock [2] 7 (snd (udp_write Sent [1] 7
       (new_udp_transport\<lparr>ut_open := True\<rparr>))))))"

lemma udp_sample_reachable: "udp_reachable udp_sample"
proof -
  have "udp_startup False SystemDefault
      \<lparr>sc_open = None, sc_set_option = None, sc_non_blocking = None, sc_bind = None, sc_connect = None\<rparr>
      new_udp_transport = (None, (new_udp_transport :: nat udp_transport)\<lparr>ut_open := True\<rparr>)"
    by (simp add: udp_startup_def)
  then show ?thesis
    unfolding udp_sample_def by (intro udp_next [OF _ udp_step_write]) (rule udp_started)
qed

lemma udp_sample_eq:
  "udp_sample =
     \<lparr>ut_open = True, ut_write_queue = [([2], 7), ([3], 7)], ut_queued_write_bytes = 2,
      ut_error_callback = False, ut_inflight = [([2], 7)], ut_wire = [([1], 7)],
      ut_accepted = [([1], 7), ([2], 7), ([3], 7)], ut_failed = False, ut_posted_errors = 0,
      ut_errors = 0\<rparr>"
  by (simp add: udp_sample_def udp_write_def enqueue_datagram_def start_write_def
      new_udp_transport_def udp_high_water_mark_def Let_def)

theorem udp_write_order_witness:
  "ut_accepted udp_sample = [([1], 7), ([2], 7), ([3], 7)] \<and>
   prefix (ut_wire udp_sample) (ut_accepted udp_sample) \<and>
   ut_inflight udp_sample = take 1 (ut_write_queue udp_sample)"
  using udp_write_order [OF udp_sample_reachable] by (simp add: udp_sample_eq)

text \<open>One successful completion of a healthy transport sends the oldest datagram.\<close>

lemma udp_complete_progress:
  assumes "udp_inv t" "ut_open t" "\<not> ut_failed t" "ut_write_queue t = d # q"
  shows "udp_inv (udp_complete False t)"
    and "ut_open (udp_complete False t)" "\<not> ut_failed (udp_complete False t)"
    and "ut_write_queue (udp_complete False t) = q"
    and "ut_wire (udp_complete False t) = ut_wire t @ [d]"
proof -
  have d: "ut_inflight t = [d]" using assms by (simp add: udp_inv_def)
  then show "udp_inv (udp_complete False t)" by (intro udp_inv_complete assms) simp
  show "ut_open (udp_complete False t)" "\<not> ut_failed (udp_complete False t)"
    and "ut_write_queue (udp_complete False t) = q"
    and "ut_wire (udp_complete False t) = ut_wire t @ [d]"
    using d assms(2-4) by (simp_all add: udp_complete_def udp_on_write_def start_write_def Let_def)
qed

lemma udp_drain_inv:
  assumes "udp_inv t" "ut_open t" "\<not> ut_failed t" "ut_write_queue t = q"
  shows "ut_write_queue ((udp_complete False ^^ length q) t) = [] \<and>
    ut_wire ((udp_complete False ^^ length q) t) = ut_wire t @ q"
  using assms
proof (induction q arbitrary: t)
  case (Cons d q)
  note one = udp_complete_progress [OF Cons.prems]
  from Cons.IH [OF one(1-4)] one(5) show ?case
    by (simp add: funpow_Suc_right del: funpow.simps)
qed simp

text \<open>
  The queue drains. While the socket is open and no send has failed, as many successful
  completions as datagrams wait empty the queue and put every accepted datagram on the
  wire in order.
\<close>

lemma udp_queue_drains:
  assumes "udp_reachable t" "ut_open t" "\<not> ut_failed t"
  shows "ut_write_queue ((udp_complete False ^^ length (ut_write_queue t)) t) = [] \<and>
    ut_wire ((udp_complete False ^^ length (ut_write_queue t)) t) = ut_accepted t"
proof -
  have inv: "udp_inv t" by (rule udp_reachable_inv [OF assms(1)])
  then have "ut_accepted t = ut_wire t @ ut_write_queue t"
    using assms(2) by (simp add: udp_inv_def)
  then show ?thesis using udp_drain_inv [OF inv assms(2,3) refl] by simp
qed

end
