(* ===== verification/Sink_Dispatcher.thy ===== *)
theory Sink_Dispatcher
  imports Std_Map "HOL-Library.Sublist"
begin

text \<open>
  \<open>media/core/worker_sink_dispatcher.h\<close>: fan-out of frames from the worker that owns a stream
  to the sinks of every worker. Sinks are grouped by worker; the group of the owner is called
  directly, every other group has a bounded queue that a \<open>drain\<close> job on its worker empties
  in slices of 20 ms.

  Workers and sinks are numbers (the addresses the code compares). Whether a \<open>weak_ptr\<close> is
  still alive is the argument \<open>live\<close>; the answers of the steady clock at the end of each
  iteration of \<open>drain\<close> are the list \<open>late\<close> (a missing answer is "the slice is not over").
  Group objects live in \<open>wd_heap\<close> and are named by their position: a job that was posted
  keeps its group alive after the dispatcher dropped it. What a sink does in its callback
  is a later operation of the dispatcher.
\<close>

type_synonym worker = nat
type_synonym sink_id = nat

datatype 'f sink_event = Deliver sink_id 'f | OnEnd sink_id

record 'f sink_group =
  sg_worker :: worker
  sg_sinks :: "sink_id list"
  sg_pending :: "'f list"
  sg_drain_queued :: bool
  sg_pending_end :: bool

definition max_pending_frames :: nat where "max_pending_frames = 2500"

definition new_sink_group :: "worker \<Rightarrow> 'f sink_group" where
  "new_sink_group target =
     \<lparr>sg_worker = target, sg_sinks = [], sg_pending = [], sg_drain_queued = False,
      sg_pending_end = False\<rparr>"

definition snapshot_sinks :: "(sink_id \<Rightarrow> bool) \<Rightarrow> 'f sink_group \<Rightarrow> sink_id list \<times> 'f sink_group" where
  "snapshot_sinks live g =
     (let sinks = filter live (sg_sinks g) in (sinks, g\<lparr>sg_sinks := sinks\<rparr>))"

section \<open>The sections under the group's mutex\<close>

text \<open>
  \<open>enqueue_frame\<close> is the locked part of \<open>publish\<close>: the new group, whether a drain job has
  to be posted, and whether the queue overflowed.
\<close>

definition enqueue_frame :: "'f \<Rightarrow> 'f sink_group \<Rightarrow> 'f sink_group \<times> bool \<times> bool" where
  "enqueue_frame frame g =
     (if sg_pending_end g then (g, False, False)
      else let overflow = length (sg_pending g) \<ge> max_pending_frames;
               g1 = (if overflow then g\<lparr>sg_pending := [], sg_pending_end := True\<rparr>
                     else g\<lparr>sg_pending := sg_pending g @ [frame]\<rparr>)
           in (g1\<lparr>sg_drain_queued := True\<rparr>, \<not> sg_drain_queued g1, overflow))"

definition mark_end :: "'f sink_group \<Rightarrow> 'f sink_group \<times> bool" where
  "mark_end g = (g\<lparr>sg_pending_end := True, sg_drain_queued := True\<rparr>, \<not> sg_drain_queued g)"

datatype 'f drain_action = TakeFrame 'f | TakeEnd | TakeNothing

definition drain_take :: "'f sink_group \<Rightarrow> 'f drain_action \<times> 'f sink_group" where
  "drain_take g =
     (case sg_pending g of
        f # fs \<Rightarrow> (TakeFrame f, g\<lparr>sg_pending := fs\<rparr>)
      | [] \<Rightarrow> if sg_pending_end g
              then (TakeEnd, g\<lparr>sg_pending_end := False, sg_drain_queued := False\<rparr>)
              else (TakeNothing, g\<lparr>sg_drain_queued := False\<rparr>))"

section \<open>One drain job\<close>

text \<open>The events, whether the job posted itself again, and the group.\<close>

function drain ::
  "(sink_id \<Rightarrow> bool) \<Rightarrow> bool list \<Rightarrow> 'f sink_group \<Rightarrow> 'f sink_event list \<times> bool \<times> 'f sink_group" where
  "drain live late g =
     (case drain_take g of
        (TakeNothing, g1) \<Rightarrow> ([], False, g1)
      | (TakeEnd, g1) \<Rightarrow>
          (let (sinks, g2) = snapshot_sinks live g1 in (map OnEnd sinks, False, g2))
      | (TakeFrame f, g1) \<Rightarrow>
          (let (sinks, g2) = snapshot_sinks live g1;
               events = map (\<lambda>s. Deliver s f) sinks
           in if late \<noteq> [] \<and> hd late then (events, True, g2)
              else let (events', again, g3) = drain live (tl late) g2
                   in (events @ events', again, g3)))"
  by pat_completeness auto
termination
  by (relation "measure (\<lambda>(live, late, g). length (sg_pending g))")
    (auto simp: drain_take_def snapshot_sinks_def Let_def split: list.splits if_splits)

declare drain.simps [simp del]

section \<open>The dispatcher\<close>

record 'f worker_sink_dispatcher =
  wd_owner :: worker
  wd_sink_groups :: "(worker, nat) smap"
  wd_heap :: "'f sink_group list"
  wd_posts :: "nat list"
  wd_events :: "'f sink_event list"

definition new_dispatcher :: "worker \<Rightarrow> 'f worker_sink_dispatcher" where
  "new_dispatcher owner =
     \<lparr>wd_owner = owner, wd_sink_groups = [], wd_heap = [], wd_posts = [], wd_events = []\<rparr>"

definition dispatcher_add ::
  "sink_id \<Rightarrow> worker \<Rightarrow> 'f worker_sink_dispatcher \<Rightarrow> 'f worker_sink_dispatcher" where
  "dispatcher_add sink target d =
     (let (i, d1) =
        (case map_of (wd_sink_groups d) target of
           Some i \<Rightarrow> (i, d)
         | None \<Rightarrow> (length (wd_heap d),
             d\<lparr>wd_sink_groups := smap_put target (length (wd_heap d)) (wd_sink_groups d),
               wd_heap := wd_heap d @ [new_sink_group target]\<rparr>));
          g = wd_heap d1 ! i
      in d1\<lparr>wd_heap := (wd_heap d1)[i := g\<lparr>sg_sinks := sg_sinks g @ [sink]\<rparr>]\<rparr>)"

definition has_live_sinks :: "(sink_id \<Rightarrow> bool) \<Rightarrow> 'f worker_sink_dispatcher \<Rightarrow> bool" where
  "has_live_sinks live d =
     list_ex (\<lambda>(w, i). list_ex live (sg_sinks (wd_heap d ! i))) (wd_sink_groups d)"

text \<open>
  \<open>remove\<close> also forgets the sinks that died, in every group, and drops the groups that are
  left empty.
\<close>

fun remove_from_groups ::
  "(sink_id \<Rightarrow> bool) \<Rightarrow> sink_id \<Rightarrow> (worker, nat) smap \<Rightarrow> 'f worker_sink_dispatcher \<Rightarrow>
   'f worker_sink_dispatcher" where
  "remove_from_groups live sink [] d = d"
| "remove_from_groups live sink ((w, i) # rest) d =
     (let g = wd_heap d ! i;
          g' = g\<lparr>sg_sinks := filter (\<lambda>s. live s \<and> s \<noteq> sink) (sg_sinks g)\<rparr>;
          d' = d\<lparr>wd_heap := (wd_heap d)[i := g']\<rparr>
      in remove_from_groups live sink rest
           (if sg_sinks g' = [] then d'\<lparr>wd_sink_groups := smap_erase w (wd_sink_groups d')\<rparr> else d'))"

definition dispatcher_remove ::
  "(sink_id \<Rightarrow> bool) \<Rightarrow> sink_id \<Rightarrow> 'f worker_sink_dispatcher \<Rightarrow> 'f worker_sink_dispatcher" where
  "dispatcher_remove live sink d = remove_from_groups live sink (wd_sink_groups d) d"

definition call_group ::
  "(sink_id \<Rightarrow> bool) \<Rightarrow> (sink_id \<Rightarrow> 'f sink_event) \<Rightarrow> nat \<Rightarrow> 'f worker_sink_dispatcher \<Rightarrow>
   'f worker_sink_dispatcher" where
  "call_group live ev i d =
     (let (sinks, g) = snapshot_sinks live (wd_heap d ! i)
      in d\<lparr>wd_heap := (wd_heap d)[i := g], wd_events := wd_events d @ map ev sinks\<rparr>)"

fun publish_to_groups ::
  "(sink_id \<Rightarrow> bool) \<Rightarrow> 'f \<Rightarrow> nat list \<Rightarrow> 'f worker_sink_dispatcher \<Rightarrow>
   nat list \<times> 'f worker_sink_dispatcher" where
  "publish_to_groups live frame [] d = ([], d)"
| "publish_to_groups live frame (i # rest) d =
     (if sg_worker (wd_heap d ! i) = wd_owner d
      then publish_to_groups live frame rest (call_group live (\<lambda>s. Deliver s frame) i d)
      else let (g, schedule, overflow) = enqueue_frame frame (wd_heap d ! i);
               d' = d\<lparr>wd_heap := (wd_heap d)[i := g],
                      wd_posts := wd_posts d @ (if schedule then [i] else [])\<rparr>;
               (overflowed, d'') = publish_to_groups live frame rest d'
           in ((if overflow then [i] else []) @ overflowed, d''))"

definition erase_overflowed :: "nat \<Rightarrow> 'f worker_sink_dispatcher \<Rightarrow> 'f worker_sink_dispatcher" where
  "erase_overflowed i d =
     (let w = sg_worker (wd_heap d ! i)
      in if map_of (wd_sink_groups d) w = Some i
         then d\<lparr>wd_sink_groups := smap_erase w (wd_sink_groups d)\<rparr> else d)"

definition dispatcher_publish ::
  "(sink_id \<Rightarrow> bool) \<Rightarrow> 'f \<Rightarrow> 'f worker_sink_dispatcher \<Rightarrow> 'f worker_sink_dispatcher" where
  "dispatcher_publish live frame d =
     (let (overflowed, d') = publish_to_groups live frame (map snd (wd_sink_groups d)) d
      in fold erase_overflowed overflowed d')"

fun end_groups ::
  "(sink_id \<Rightarrow> bool) \<Rightarrow> (worker, nat) smap \<Rightarrow> 'f worker_sink_dispatcher \<Rightarrow> 'f worker_sink_dispatcher" where
  "end_groups live [] d = d"
| "end_groups live ((w, i) # rest) d =
     (if w = wd_owner d then end_groups live rest (call_group live OnEnd i d)
      else let (g, schedule) = mark_end (wd_heap d ! i)
           in end_groups live rest
                (d\<lparr>wd_heap := (wd_heap d)[i := g],
                   wd_posts := wd_posts d @ (if schedule then [i] else [])\<rparr>))"

definition dispatcher_end ::
  "(sink_id \<Rightarrow> bool) \<Rightarrow> 'f worker_sink_dispatcher \<Rightarrow> 'f worker_sink_dispatcher" where
  "dispatcher_end live d = end_groups live (wd_sink_groups d) (d\<lparr>wd_sink_groups := []\<rparr>)"

text \<open>A worker runs the \<open>k\<close>-th posted job.\<close>

definition run_drain ::
  "(sink_id \<Rightarrow> bool) \<Rightarrow> bool list \<Rightarrow> nat \<Rightarrow> 'f worker_sink_dispatcher \<Rightarrow> 'f worker_sink_dispatcher" where
  "run_drain live late k d =
     (if k < length (wd_posts d)
      then let i = wd_posts d ! k;
               (events, again, g) = drain live late (wd_heap d ! i)
           in d\<lparr>wd_heap := (wd_heap d)[i := g],
                wd_posts := take k (wd_posts d) @ drop (Suc k) (wd_posts d) @ (if again then [i] else []),
                wd_events := wd_events d @ events\<rparr>
      else d)"

end
