(* ===== verification/Sink_Group_Run.thy ===== *)
theory Sink_Group_Run
  imports Sink_Dispatcher
begin

text \<open>
  One sink group under every interleaving of its two threads. The owner's thread publishes,
  ends, drops or changes the sinks of the group; the group's worker starts posted drain jobs
  and advances them. A step is one section under the mutex or one round of callbacks, so
  the owner may act between any two of them. \<open>gr_running\<close> lists the drain jobs that run:
  the model does not assume there is only one.

  \<open>gr_accepted\<close>, \<open>gr_taken\<close>, \<open>gr_ended\<close> and \<open>gr_overflowed\<close> record the history: the frames
  queued, the frames taken for delivery, how often the end was taken, and whether the
  queue overflowed.
\<close>

datatype 'f drain_pc = AtLock | Delivering 'f | Ending

record 'f group_run =
  gr_group :: "'f sink_group"
  gr_attached :: bool
  gr_jobs :: nat
  gr_running :: "'f drain_pc list"
  gr_accepted :: "'f list"
  gr_taken :: "'f list"
  gr_ended :: nat
  gr_overflowed :: bool

definition group_start :: "worker \<Rightarrow> 'f group_run" where
  "group_start target =
     \<lparr>gr_group = new_sink_group target, gr_attached = True, gr_jobs = 0, gr_running = [],
      gr_accepted = [], gr_taken = [], gr_ended = 0, gr_overflowed = False\<rparr>"

text \<open>The owner's side.\<close>

definition owner_publish :: "'f \<Rightarrow> 'f group_run \<Rightarrow> 'f group_run" where
  "owner_publish f r =
     (case enqueue_frame f (gr_group r) of (g, schedule, overflow) \<Rightarrow>
        r\<lparr>gr_group := g, gr_jobs := gr_jobs r + (if schedule then 1 else 0),
          gr_attached := gr_attached r \<and> \<not> overflow,
          gr_accepted := gr_accepted r @ (if overflow \<or> sg_pending_end (gr_group r) then [] else [f]),
          gr_overflowed := gr_overflowed r \<or> overflow\<rparr>)"

definition owner_end :: "'f group_run \<Rightarrow> 'f group_run" where
  "owner_end r =
     (case mark_end (gr_group r) of (g, schedule) \<Rightarrow>
        r\<lparr>gr_group := g, gr_jobs := gr_jobs r + (if schedule then 1 else 0), gr_attached := False\<rparr>)"

text \<open>The worker's side: the drain at position \<open>k\<close> takes, delivers or finishes.\<close>

definition set_pc :: "nat \<Rightarrow> 'f drain_pc option \<Rightarrow> 'f group_run \<Rightarrow> 'f group_run" where
  "set_pc k pc r =
     r\<lparr>gr_running := (case pc of Some p \<Rightarrow> (gr_running r)[k := p]
        | None \<Rightarrow> take k (gr_running r) @ drop (Suc k) (gr_running r))\<rparr>"

definition worker_take :: "nat \<Rightarrow> 'f group_run \<Rightarrow> 'f group_run" where
  "worker_take k r =
     (case drain_take (gr_group r) of
        (TakeFrame f, g) \<Rightarrow> set_pc k (Some (Delivering f)) (r\<lparr>gr_group := g, gr_taken := gr_taken r @ [f]\<rparr>)
      | (TakeEnd, g) \<Rightarrow> set_pc k (Some Ending) (r\<lparr>gr_group := g, gr_ended := gr_ended r + 1\<rparr>)
      | (TakeNothing, g) \<Rightarrow> set_pc k None (r\<lparr>gr_group := g\<rparr>))"

definition worker_delivered :: "(sink_id \<Rightarrow> bool) \<Rightarrow> bool \<Rightarrow> nat \<Rightarrow> 'f group_run \<Rightarrow> 'f group_run" where
  "worker_delivered live late k r =
     (let r' = r\<lparr>gr_group := snd (snapshot_sinks live (gr_group r))\<rparr>
      in if late then set_pc k None (r'\<lparr>gr_jobs := gr_jobs r + 1\<rparr>) else set_pc k (Some AtLock) r')"

inductive group_step :: "'f group_run \<Rightarrow> 'f group_run \<Rightarrow> bool" where
  step_publish: "gr_attached r \<Longrightarrow> group_step r (owner_publish f r)"
| step_end: "gr_attached r \<Longrightarrow> group_step r (owner_end r)"
| step_drop: "group_step r (r\<lparr>gr_attached := False\<rparr>)"
| step_sinks: "group_step r (r\<lparr>gr_group := (gr_group r)\<lparr>sg_sinks := sinks\<rparr>\<rparr>)"
| step_start: "gr_jobs r = Suc n \<Longrightarrow>
    group_step r (r\<lparr>gr_jobs := n, gr_running := gr_running r @ [AtLock]\<rparr>)"
| step_take: "k < length (gr_running r) \<Longrightarrow> gr_running r ! k = AtLock \<Longrightarrow> group_step r (worker_take k r)"
| step_delivered: "k < length (gr_running r) \<Longrightarrow> gr_running r ! k = Delivering f \<Longrightarrow>
    group_step r (worker_delivered live late k r)"
| step_ended: "k < length (gr_running r) \<Longrightarrow> gr_running r ! k = Ending \<Longrightarrow> group_step r (set_pc k None r)"

inductive group_reachable :: "'f group_run \<Rightarrow> bool" where
  group_init: "group_reachable (group_start target)"
| group_next: "group_reachable r \<Longrightarrow> group_step r r' \<Longrightarrow> group_reachable r'"

section \<open>The invariant\<close>

text \<open>The drain jobs that may still take a frame.\<close>

definition active :: "'f drain_pc list \<Rightarrow> 'f drain_pc list" where
  "active ps = filter (\<lambda>p. p \<noteq> Ending) ps"

definition group_inv :: "'f group_run \<Rightarrow> bool" where
  "group_inv r \<longleftrightarrow>
     (let g = gr_group r in
       gr_jobs r + length (active (gr_running r)) = (if sg_drain_queued g then 1 else 0) \<and>
       (sg_pending g \<noteq> [] \<or> sg_pending_end g \<longrightarrow> sg_drain_queued g) \<and>
       length (sg_pending g) \<le> max_pending_frames \<and>
       (if gr_overflowed r then sg_pending g = [] \<and> prefix (gr_taken r) (gr_accepted r)
        else gr_taken r @ sg_pending g = gr_accepted r) \<and>
       (gr_attached r \<longrightarrow> \<not> sg_pending_end g \<and> gr_ended r = 0 \<and> \<not> gr_overflowed r) \<and>
       gr_ended r + (if sg_pending_end g then 1 else 0) \<le> 1 \<and>
       (gr_ended r = 1 \<longrightarrow> sg_pending g = [] \<and> \<not> sg_drain_queued g) \<and>
       (Ending \<in> set (gr_running r) \<longrightarrow> gr_ended r = 1) \<and>
       (\<forall>f. Delivering f \<in> set (gr_running r) \<longrightarrow> gr_taken r \<noteq> [] \<and> last (gr_taken r) = f))"

lemma active_simps [simp]:
  "active [] = []" "active (AtLock # ps) = AtLock # active ps"
  "active (Delivering f # ps) = Delivering f # active ps" "active (Ending # ps) = active ps"
  "active (ps @ qs) = active ps @ active qs"
  by (simp_all add: active_def)

lemma split_at:
  assumes "k < length xs" "xs ! k = p"
  obtains ps qs where "xs = ps @ p # qs" "k = length ps"
  using assms id_take_nth_drop [OF assms(1)] by (metis length_take min.absorb4)

lemma set_pc_split:
  assumes "gr_running r = ps @ p # qs"
  shows "set_pc (length ps) (Some p') r = r\<lparr>gr_running := ps @ p' # qs\<rparr>"
    and "set_pc (length ps) None r = r\<lparr>gr_running := ps @ qs\<rparr>"
  using assms by (simp_all add: set_pc_def)

lemma group_inv_start: "group_inv (group_start target)"
  by (simp add: group_inv_def group_start_def new_sink_group_def Let_def)

lemma group_inv_publish:
  assumes "group_inv r" "gr_attached r"
  shows "group_inv (owner_publish f r)"
proof -
  have g: "\<not> sg_pending_end (gr_group r)" "gr_ended r = 0" "\<not> gr_overflowed r"
    using assms by (auto simp: group_inv_def Let_def)
  show ?thesis
  proof (cases "length (sg_pending (gr_group r)) \<ge> max_pending_frames")
    case True
    have "gr_accepted r = gr_taken r @ sg_pending (gr_group r)"
      using assms g by (simp add: group_inv_def Let_def)
    then have "prefix (gr_taken r) (gr_accepted r)" by simp
    with True show ?thesis
      using assms g
      by (auto simp: owner_publish_def enqueue_frame_def group_inv_def Let_def split: if_splits)
  next
    case False
    then show ?thesis
      using assms g
      by (auto simp: owner_publish_def enqueue_frame_def group_inv_def Let_def split: if_splits)
  qed
qed

lemma group_inv_end:
  assumes "group_inv r" "gr_attached r"
  shows "group_inv (owner_end r)"
  using assms by (auto simp: owner_end_def mark_end_def group_inv_def Let_def split: if_splits)

lemma group_inv_take:
  assumes inv: "group_inv r" and "k < length (gr_running r)" "gr_running r ! k = AtLock"
  shows "group_inv (worker_take k r)"
proof -
  obtain ps qs where run: "gr_running r = ps @ AtLock # qs" and k: "k = length ps"
    using assms(2,3) by (rule split_at)
  note set_pc = set_pc_split
  have q: "sg_drain_queued (gr_group r)" "active ps = []" "active qs = []" "gr_jobs r = 0" "gr_ended r = 0"
    using inv run by (auto simp: group_inv_def Let_def split: if_splits)
  have quiet: "p = Ending" if "p \<in> set ps \<union> set qs" for p
    using q that by (auto simp: active_def filter_empty_conv)
  show ?thesis
  proof (cases "sg_pending (gr_group r)")
    case (Cons f fs)
    then have "worker_take k r = r\<lparr>gr_group := (gr_group r)\<lparr>sg_pending := fs\<rparr>,
        gr_taken := gr_taken r @ [f], gr_running := ps @ Delivering f # qs\<rparr>"
      using run k by (simp add: worker_take_def drain_take_def set_pc_def)
    then show ?thesis
      using inv run q Cons quiet by (auto simp: group_inv_def Let_def split: if_splits)
  next
    case Nil
    then have "worker_take k r =
        (if sg_pending_end (gr_group r)
         then r\<lparr>gr_group := (gr_group r)\<lparr>sg_pending_end := False, sg_drain_queued := False\<rparr>,
                gr_ended := gr_ended r + 1, gr_running := ps @ Ending # qs\<rparr>
         else r\<lparr>gr_group := (gr_group r)\<lparr>sg_drain_queued := False\<rparr>, gr_running := ps @ qs\<rparr>)"
      using run k by (simp add: worker_take_def drain_take_def set_pc_def)
    then show ?thesis
      using inv run q Nil quiet by (auto simp: group_inv_def Let_def split: if_splits)
  qed
qed

lemma group_inv_delivered:
  assumes inv: "group_inv r" and "k < length (gr_running r)" "gr_running r ! k = Delivering f"
  shows "group_inv (worker_delivered live late k r)"
proof -
  obtain ps qs where run: "gr_running r = ps @ Delivering f # qs" and k: "k = length ps"
    using assms(2,3) by (rule split_at)
  have "worker_delivered live late k r =
      r\<lparr>gr_group := (gr_group r)\<lparr>sg_sinks := filter live (sg_sinks (gr_group r))\<rparr>,
        gr_jobs := gr_jobs r + (if late then 1 else 0),
        gr_running := ps @ (if late then [] else [AtLock]) @ qs\<rparr>"
    using run k by (simp add: worker_delivered_def snapshot_sinks_def set_pc_def Let_def)
  then show ?thesis
    using inv run by (auto simp: group_inv_def Let_def split: if_splits)
qed

lemma group_inv_ended:
  assumes "group_inv r" "k < length (gr_running r)" "gr_running r ! k = Ending"
  shows "group_inv (set_pc k None r)"
proof -
  obtain ps qs where run: "gr_running r = ps @ Ending # qs" and k: "k = length ps"
    using assms(2,3) by (rule split_at)
  then show ?thesis
    using assms(1) set_pc_split(2) [OF run] by (auto simp: group_inv_def Let_def)
qed

lemma group_step_inv: "group_step r r' \<Longrightarrow> group_inv r \<Longrightarrow> group_inv r'"
proof (induction rule: group_step.induct)
  case (step_drop r)
  then show ?case by (simp add: group_inv_def Let_def)
next
  case (step_sinks r sinks)
  then show ?case by (simp add: group_inv_def Let_def)
next
  case (step_start r n)
  then show ?case by (auto simp: group_inv_def Let_def split: if_splits)
qed (auto intro: group_inv_publish group_inv_end group_inv_take group_inv_delivered group_inv_ended)

lemma group_reachable_inv: "group_reachable r \<Longrightarrow> group_inv r"
  by (induction rule: group_reachable.induct) (auto intro: group_inv_start group_step_inv)

section \<open>What a group promises\<close>

text \<open>
  C1: no wake-up is lost and none is doubled. Under every interleaving of the owner's thread
  and the group's worker at most one drain job is posted or running, exactly one whenever
  frames or the end wait, and never more than 2500 frames wait.
\<close>

theorem drain_never_lost_nor_doubled:
  assumes "group_reachable r"
  shows "gr_jobs r + length (active (gr_running r)) \<le> 1 \<and>
    (sg_pending (gr_group r) \<noteq> [] \<or> sg_pending_end (gr_group r) \<longrightarrow>
       gr_jobs r + length (active (gr_running r)) = 1) \<and>
    length (sg_pending (gr_group r)) \<le> max_pending_frames"
  using group_reachable_inv [OF assms] by (auto simp: group_inv_def Let_def split: if_splits)

text \<open>A history: two frames, a drain that takes the first, the end while it delivers.\<close>

definition run_sample :: "nat group_run" where
  "run_sample =
     (let r0 = owner_publish 2 (owner_publish 1 (group_start 0));
          r1 = r0\<lparr>gr_jobs := 0, gr_running := gr_running r0 @ [AtLock]\<rparr>
      in owner_end (worker_take 0 r1))"

lemmas run_defs = run_sample_def owner_publish_def owner_end_def worker_take_def enqueue_frame_def
  mark_end_def drain_take_def set_pc_def group_start_def new_sink_group_def max_pending_frames_def
  Let_def

lemma run_sample_eq:
  "run_sample = \<lparr>gr_group = \<lparr>sg_worker = 0, sg_sinks = [], sg_pending = [2],
       sg_drain_queued = True, sg_pending_end = True\<rparr>, gr_attached = False, gr_jobs = 0,
     gr_running = [Delivering 1], gr_accepted = [1, 2], gr_taken = [1], gr_ended = 0,
     gr_overflowed = False\<rparr>"
  by (simp add: run_defs)

lemma run_sample_reachable: "group_reachable run_sample"
proof -
  let ?r0 = "owner_publish 2 (owner_publish 1 (group_start 0)) :: nat group_run"
  let ?r1 = "?r0\<lparr>gr_jobs := 0, gr_running := gr_running ?r0 @ [AtLock]\<rparr>"
  have "group_reachable (owner_publish 1 (group_start 0) :: nat group_run)"
    by (rule group_next [OF group_init step_publish]) (simp add: group_start_def)
  then have "group_reachable ?r0"
    by (rule group_next [OF _ step_publish]) (simp add: run_defs)
  then have "group_reachable ?r1"
    by (rule group_next [OF _ step_start]) (simp add: run_defs)
  then have "group_reachable (worker_take 0 ?r1)"
    by (rule group_next [OF _ step_take]) (simp_all add: run_defs)
  then have "group_reachable (owner_end (worker_take 0 ?r1))"
    by (rule group_next [OF _ step_end]) (simp add: run_defs)
  then show ?thesis by (simp add: run_sample_def Let_def)
qed

theorem drain_never_lost_nor_doubled_witness:
  "sg_pending (gr_group run_sample) = [2] \<and>
   gr_jobs run_sample + length (active (gr_running run_sample)) = 1"
  using drain_never_lost_nor_doubled [OF run_sample_reachable] by (simp add: run_sample_eq)

text \<open>
  C2: frames are handed to the sinks of a group in the order they were published, each once:
  without an overflow the frames taken followed by the frames waiting are exactly the frames
  accepted, with one they are still a prefix. While a frame is being delivered it is the
  latest one taken, and when the end is delivered nothing is waiting, posted or running any
  more.
\<close>

theorem group_delivers_in_order:
  assumes "group_reachable r"
  shows "prefix (gr_taken r) (gr_accepted r) \<and>
    (\<not> gr_overflowed r \<longrightarrow> gr_taken r @ sg_pending (gr_group r) = gr_accepted r) \<and>
    (\<forall>f. Delivering f \<in> set (gr_running r) \<longrightarrow> last (gr_taken r) = f) \<and>
    (Ending \<in> set (gr_running r) \<longrightarrow>
       gr_jobs r = 0 \<and> active (gr_running r) = [] \<and> sg_pending (gr_group r) = [])"
proof -
  have inv: "group_inv r" by (rule group_reachable_inv [OF assms])
  then have "gr_overflowed r \<longrightarrow> prefix (gr_taken r) (gr_accepted r)"
    and "\<not> gr_overflowed r \<longrightarrow> gr_accepted r = gr_taken r @ sg_pending (gr_group r)"
    by (simp_all add: group_inv_def Let_def)
  then have "prefix (gr_taken r) (gr_accepted r)" by auto
  with inv show ?thesis by (auto simp: group_inv_def Let_def split: if_splits)
qed

theorem group_delivers_in_order_witness:
  "gr_taken run_sample @ sg_pending (gr_group run_sample) = [1, 2] \<and>
   Delivering (last (gr_taken run_sample)) \<in> set (gr_running run_sample)"
  using group_delivers_in_order [OF run_sample_reachable] by (simp add: run_sample_eq)

lemma group_step_after_end:
  assumes "group_step r r'" "group_inv r" "gr_ended r = 1"
  shows "gr_taken r' = gr_taken r \<and> gr_ended r' = 1"
proof -
  have no_active: "AtLock \<notin> set (gr_running r)" and "\<not> gr_attached r"
    using assms(2,3) by (auto simp: group_inv_def Let_def active_def filter_empty_conv split: if_splits)
  with assms(1,3) show ?thesis
    by (induction rule: group_step.induct)
      (auto simp: worker_delivered_def set_pc_def Let_def dest: nth_mem)
qed

text \<open>
  C3: the end is final. Once the end of a group was taken, which happens at most once, no
  frame is taken and no second end follows, whatever either thread does.
\<close>

theorem nothing_after_end:
  assumes "group_reachable r" "gr_ended r \<noteq> 0" "group_step\<^sup>*\<^sup>* r r'"
  shows "gr_ended r' = 1 \<and> gr_taken r' = gr_taken r"
proof -
  have inv: "group_inv r" by (rule group_reachable_inv [OF assms(1)])
  with assms(2) have one: "gr_ended r = 1"
    by (auto simp: group_inv_def Let_def split: if_splits)
  from assms(3) have "group_inv r' \<and> gr_ended r' = 1 \<and> gr_taken r' = gr_taken r"
  proof (induction rule: rtranclp_induct)
    case base
    with inv one show ?case by simp
  next
    case (step s t)
    with group_step_after_end [OF step.hyps(2)] group_step_inv [OF step.hyps(2)] show ?case by simp
  qed
  then show ?thesis by simp
qed

definition ended_sample :: "nat group_run" where
  "ended_sample = worker_take 0
     ((owner_end (group_start 0))\<lparr>gr_jobs := 0, gr_running := [AtLock]\<rparr>)"

lemma ended_sample_reachable: "group_reachable ended_sample"
proof -
  let ?r = "owner_end (group_start 0) :: nat group_run"
  have "group_reachable ?r"
    by (rule group_next [OF group_init step_end]) (simp add: group_start_def)
  then have "group_reachable (?r\<lparr>gr_jobs := 0, gr_running := gr_running ?r @ [AtLock]\<rparr>)"
    by (rule group_next [OF _ step_start]) (simp add: run_defs)
  then have "group_reachable (worker_take 0 (?r\<lparr>gr_jobs := 0, gr_running := gr_running ?r @ [AtLock]\<rparr>))"
    by (rule group_next [OF _ step_take]) (simp_all add: run_defs)
  then show ?thesis by (simp add: ended_sample_def run_defs)
qed

theorem nothing_after_end_witness:
  "gr_running ended_sample = [Ending] \<and>
   gr_ended (set_pc 0 None ended_sample) = 1 \<and> gr_taken (set_pc 0 None ended_sample) = []"
proof -
  have eq: "gr_ended ended_sample = 1" "gr_running ended_sample = [Ending]" "gr_taken ended_sample = []"
    by (simp_all add: ended_sample_def run_defs)
  then have "group_step ended_sample (set_pc 0 None ended_sample)"
    by (intro step_ended) simp_all
  then have "group_step\<^sup>*\<^sup>* ended_sample (set_pc 0 None ended_sample)" by simp
  from nothing_after_end [OF ended_sample_reachable _ this] eq show ?thesis by simp
qed

section \<open>Draining to the end\<close>

text \<open>
  A job that ran out of its slice posts itself again: \<open>drain_runs\<close> runs it under one list of
  clock answers after the other.
\<close>

fun drain_runs ::
  "(sink_id \<Rightarrow> bool) \<Rightarrow> bool list list \<Rightarrow> 'f sink_group \<Rightarrow> 'f sink_event list \<times> bool \<times> 'f sink_group" where
  "drain_runs live [] g = ([], True, g)"
| "drain_runs live (late # lates) g =
     (let (events, again, g1) = drain live late g
      in if again then let (events', again', g2) = drain_runs live lates g1
                       in (events @ events', again', g2)
         else (events, False, g1))"

text \<open>The events owed to the sinks of a group.\<close>

definition owed :: "(sink_id \<Rightarrow> bool) \<Rightarrow> 'f sink_group \<Rightarrow> 'f sink_event list" where
  "owed live g =
     concat (map (\<lambda>f. map (\<lambda>s. Deliver s f) (filter live (sg_sinks g))) (sg_pending g)) @
     (if sg_pending_end g then map OnEnd (filter live (sg_sinks g)) else [])"

lemma owed_snapshot [simp]: "owed live (g\<lparr>sg_sinks := filter live (sg_sinks g)\<rparr>) = owed live g"
  by (simp add: owed_def)

lemma drain_owed:
  "drain live late g = (events, again, g') \<Longrightarrow>
     events @ owed live g' = owed live g \<and> sg_worker g' = sg_worker g \<and>
     suffix (sg_pending g') (sg_pending g) \<and>
     (if again then length (sg_pending g') < length (sg_pending g) \<and>
        sg_drain_queued g' = sg_drain_queued g \<and> sg_pending_end g' = sg_pending_end g
      else sg_pending g' = [] \<and> \<not> sg_pending_end g' \<and> \<not> sg_drain_queued g')"
proof (induction live late g arbitrary: events again g' rule: drain.induct)
  case (1 live late g)
  show ?case
  proof (cases "sg_pending g")
    case Nil
    with 1(2) show ?thesis
      by (auto simp: drain.simps [of live late g] drain_take_def snapshot_sinks_def owed_def Let_def
          split: if_splits)
  next
    case (Cons f fs)
    let ?ss = "filter live (sg_sinks g)"
    let ?g1 = "g\<lparr>sg_pending := fs\<rparr>" and ?ev = "map (\<lambda>s. Deliver s f) ?ss"
    let ?g2 = "?g1\<lparr>sg_sinks := ?ss\<rparr>"
    have owed: "owed live g = ?ev @ owed live ?g2"
      using Cons by (simp add: owed_def)
    show ?thesis
    proof (cases "late \<noteq> [] \<and> hd late")
      case True
      with 1(2) Cons have "events = ?ev" "again" "g' = ?g2"
        by (auto simp: drain.simps [of live late g] drain_take_def snapshot_sinks_def Let_def)
      with owed Cons show ?thesis by (simp add: suffix_Cons)
    next
      case False
      obtain events' again' g3 where rest: "drain live (tl late) ?g2 = (events', again', g3)"
        by (metis prod_cases3)
      have "drain live late g = (?ev @ events', again', g3)"
        using Cons False rest
        by (auto simp: drain.simps [of live late g] drain_take_def snapshot_sinks_def Let_def)
      with 1(2) have eq: "events = ?ev @ events'" "again = again'" "g' = g3" by auto
      have "events' @ owed live g3 = owed live ?g2 \<and> sg_worker g3 = sg_worker ?g2 \<and>
          suffix (sg_pending g3) (sg_pending ?g2) \<and>
          (if again' then length (sg_pending g3) < length (sg_pending ?g2) \<and>
             sg_drain_queued g3 = sg_drain_queued ?g2 \<and> sg_pending_end g3 = sg_pending_end ?g2
           else sg_pending g3 = [] \<and> \<not> sg_pending_end g3 \<and> \<not> sg_drain_queued g3)"
        using 1(1) [of "TakeFrame f" ?g1 f "(?ss, ?g2)" ?ss ?g2 ?ev,
          OF _ refl _ refl refl False rest] Cons
        by (simp add: drain_take_def snapshot_sinks_def Let_def split: if_splits)
      with owed Cons eq show ?thesis by (auto simp: suffix_Cons split: if_splits)
    qed
  qed
qed

lemma drain_runs_owed:
  assumes "length (sg_pending g) < length lates"
  shows "\<exists>g'. drain_runs live lates g = (owed live g, False, g') \<and>
     sg_pending g' = [] \<and> \<not> sg_pending_end g' \<and> \<not> sg_drain_queued g'"
  using assms
proof (induction lates arbitrary: g)
  case (Cons late lates)
  obtain events again g1 where d: "drain live late g = (events, again, g1)" by (metis prod_cases3)
  note o = drain_owed [OF d]
  show ?case
  proof (cases again)
    case True
    with o Cons.prems have "length (sg_pending g1) < length lates" by simp
    from Cons.IH [OF this] d True o show ?thesis by auto
  next
    case False
    with o have "owed live g1 = []" by (simp add: owed_def)
    with o d False show ?thesis by auto
  qed
qed simp

text \<open>
  C4: a posted drain job finishes. However the clock cuts it into slices, after at most one
  run per waiting frame and one more every live sink of the group has received every
  waiting frame, in order, then the end if it was pending, and nothing else; the group is
  left idle.
\<close>

theorem drain_runs_deliver_everything:
  assumes "length (sg_pending g) < length lates"
  shows "\<exists>g'. drain_runs live lates g =
      (concat (map (\<lambda>f. map (\<lambda>s. Deliver s f) (filter live (sg_sinks g))) (sg_pending g)) @
       (if sg_pending_end g then map OnEnd (filter live (sg_sinks g)) else []), False, g') \<and>
    sg_pending g' = [] \<and> \<not> sg_pending_end g' \<and> \<not> sg_drain_queued g'"
  using drain_runs_owed [OF assms] by (simp add: owed_def)

theorem drain_runs_deliver_everything_witness:
  "fst (drain_runs (\<lambda>s. s \<noteq> 9) [[True], [False, True], []]
     \<lparr>sg_worker = 0, sg_sinks = [4, 9, 5], sg_pending = [10 :: nat, 11], sg_drain_queued = True,
      sg_pending_end = True\<rparr>) =
   [Deliver 4 10, Deliver 5 10, Deliver 4 11, Deliver 5 11, OnEnd 4, OnEnd 5]"
  using drain_runs_deliver_everything [of
      "\<lparr>sg_worker = 0, sg_sinks = [4, 9, 5], sg_pending = [10 :: nat, 11], sg_drain_queued = True,
        sg_pending_end = True\<rparr>" "[[True], [False, True], []]" "\<lambda>s. s \<noteq> 9"]
  by auto

end
