(* ===== verification/Sink_Dispatcher_Props.thy ===== *)
theory Sink_Dispatcher_Props
  imports Sink_Group_Run
begin

text \<open>
  The dispatcher as a whole: its well-formedness, kept by every operation, and what
  \<open>publish\<close>, \<open>end\<close> and \<open>remove\<close> do to each group.
\<close>

section \<open>Well-formedness\<close>

definition groups_ok :: "'f worker_sink_dispatcher \<Rightarrow> bool" where
  "groups_ok d \<longleftrightarrow>
     smap_ok (wd_sink_groups d) \<and> distinct (map snd (wd_sink_groups d)) \<and>
     (\<forall>(w, i) \<in> set (wd_sink_groups d). i < length (wd_heap d) \<and> sg_worker (wd_heap d ! i) = w)"

text \<open>A group object is consistent with the jobs posted for it.\<close>

definition heap_ok :: "'f worker_sink_dispatcher \<Rightarrow> bool" where
  "heap_ok d \<longleftrightarrow>
     set (wd_posts d) \<subseteq> {..<length (wd_heap d)} \<and>
     (\<forall>i < length (wd_heap d).
        count_list (wd_posts d) i = (if sg_drain_queued (wd_heap d ! i) then 1 else 0) \<and>
        (sg_pending (wd_heap d ! i) \<noteq> [] \<or> sg_pending_end (wd_heap d ! i) \<longrightarrow>
           sg_drain_queued (wd_heap d ! i)) \<and>
        length (sg_pending (wd_heap d ! i)) \<le> max_pending_frames) \<and>
     (\<forall>(w, i) \<in> set (wd_sink_groups d). \<not> sg_pending_end (wd_heap d ! i))"

lemma groups_okD:
  "groups_ok d \<Longrightarrow> (w, i) \<in> set (wd_sink_groups d) \<Longrightarrow> i < length (wd_heap d) \<and> sg_worker (wd_heap d ! i) = w"
  by (auto simp: groups_ok_def)

lemma set_smap_erase_eq: "smap_ok m \<Longrightarrow> set (smap_erase k m) = {(a, b) \<in> set m. a \<noteq> k}"
  by (induction m) (auto split: if_splits dest: bspec)

lemma distinct_smap_erase: "distinct (map snd m) \<Longrightarrow> distinct (map snd (smap_erase k m))"
proof (induction m)
  case (Cons x m)
  then show ?case
    using set_smap_erase [of k m] by (cases x) auto
qed simp

lemma set_smap_put_new: "map_of m k = None \<Longrightarrow> set (smap_put k v m) = insert (k, v) (set m)"
  by (induction k v m rule: smap_put.induct) (auto split: if_splits)

lemma distinct_smap_put:
  "distinct (map snd m) \<Longrightarrow> v \<notin> set (map snd m) \<Longrightarrow> distinct (map snd (smap_put k v m))"
proof (induction k v m rule: smap_put.induct)
  case (2 k v a b m)
  have "snd ` set (smap_put k v m) \<subseteq> insert v (snd ` set m)"
    by (induction k v m rule: smap_put.induct) auto
  with 2 show ?case by auto
qed simp

lemma groups_ok_erase:
  "groups_ok d \<Longrightarrow> groups_ok (d\<lparr>wd_sink_groups := smap_erase w (wd_sink_groups d)\<rparr>)"
  using set_smap_erase [of w "wd_sink_groups d"]
  by (auto simp: groups_ok_def sm.ok_erase distinct_smap_erase)

section \<open>Publishing\<close>

text \<open>What one published frame does to one group object.\<close>

definition publish_group ::
  "(sink_id \<Rightarrow> bool) \<Rightarrow> 'f \<Rightarrow> worker \<Rightarrow> 'f sink_group \<Rightarrow> 'f sink_group" where
  "publish_group live frame own g =
     (if sg_worker g = own then g\<lparr>sg_sinks := filter live (sg_sinks g)\<rparr> else fst (enqueue_frame frame g))"

definition direct_events ::
  "(sink_id \<Rightarrow> bool) \<Rightarrow> 'f \<Rightarrow> worker \<Rightarrow> 'f sink_group \<Rightarrow> 'f sink_event list" where
  "direct_events live frame own g =
     (if sg_worker g = own then map (\<lambda>s. Deliver s frame) (filter live (sg_sinks g)) else [])"

definition overflows :: "worker \<Rightarrow> 'f sink_group \<Rightarrow> bool" where
  "overflows own g \<longleftrightarrow> sg_worker g \<noteq> own \<and> \<not> sg_pending_end g \<and> length (sg_pending g) \<ge> max_pending_frames"

definition schedules :: "worker \<Rightarrow> 'f sink_group \<Rightarrow> bool" where
  "schedules own g \<longleftrightarrow> sg_worker g \<noteq> own \<and> \<not> sg_pending_end g \<and> \<not> sg_drain_queued g"

lemma enqueue_frame_eq:
  "enqueue_frame f g = (fst (enqueue_frame f g), \<not> sg_pending_end g \<and> \<not> sg_drain_queued g,
     \<not> sg_pending_end g \<and> length (sg_pending g) \<ge> max_pending_frames)"
  by (simp add: enqueue_frame_def Let_def)

lemma publish_to_groups_eq:
  assumes "distinct is" "set is \<subseteq> {..<length (wd_heap d)}"
  defines "h \<equiv> wd_heap d" and "own \<equiv> wd_owner d"
  shows "publish_to_groups live f is d =
    (filter (\<lambda>i. overflows own (h ! i)) is,
     d\<lparr>wd_heap := map (\<lambda>j. if j \<in> set is then publish_group live f own (h ! j) else h ! j) [0..<length h],
       wd_posts := wd_posts d @ filter (\<lambda>i. schedules own (h ! i)) is,
       wd_events := wd_events d @ concat (map (\<lambda>i. direct_events live f own (h ! i)) is)\<rparr>)"
  using assms(1,2) unfolding h_def own_def
proof (induction "is" arbitrary: d)
  case Nil
  then show ?case by (simp add: map_nth)
next
  case (Cons i "is")
  let ?g = "wd_heap d ! i" and ?own = "wd_owner d"
  let ?d1 = "d\<lparr>wd_heap := (wd_heap d)[i := publish_group live f ?own ?g],
      wd_posts := wd_posts d @ (if schedules ?own ?g then [i] else []),
      wd_events := wd_events d @ direct_events live f ?own ?g\<rparr>"
  have i: "i < length (wd_heap d)" "i \<notin> set is" "distinct is" "set is \<subseteq> {..<length (wd_heap d)}"
    using Cons.prems by auto
  have step: "publish_to_groups live f (i # is) d =
      (let (ov, d2) = publish_to_groups live f is ?d1 in ((if overflows ?own ?g then [i] else []) @ ov, d2))"
  proof (cases "sg_worker ?g = ?own")
    case True
    then show ?thesis
      by (simp add: call_group_def snapshot_sinks_def publish_group_def direct_events_def overflows_def
          schedules_def Let_def split_beta)
  next
    case False
    moreover obtain g s ov where e: "enqueue_frame f ?g = (g, s, ov)" by (metis prod_cases3)
    moreover have "s \<longleftrightarrow> \<not> sg_pending_end ?g \<and> \<not> sg_drain_queued ?g"
      "ov \<longleftrightarrow> \<not> sg_pending_end ?g \<and> length (sg_pending ?g) \<ge> max_pending_frames"
      using enqueue_frame_eq [of f ?g] e by auto
    ultimately show ?thesis
      by (simp add: publish_group_def direct_events_def overflows_def schedules_def Let_def split_beta)
  qed
  have other: "wd_heap ?d1 ! j = wd_heap d ! j" if "j \<in> set is" for j
    using i(2) that by (cases "j = i") auto
  have heap: "map (\<lambda>j. if j \<in> set is then publish_group live f ?own (wd_heap ?d1 ! j) else wd_heap ?d1 ! j)
        [0..<length (wd_heap ?d1)] =
      map (\<lambda>j. if j \<in> set (i # is) then publish_group live f ?own (wd_heap d ! j) else wd_heap d ! j)
        [0..<length (wd_heap d)]"
    using i(1,2) other by (auto simp: nth_list_update)
  show ?case
    using Cons.IH [of ?d1] i other heap unfolding step
    by (simp add: Let_def cong: filter_cong map_cong)
qed

lemma smap_erase_filter: "smap_ok m \<Longrightarrow> smap_erase k m = filter (\<lambda>(a, b). a \<noteq> k) m"
proof (induction m)
  case (Cons x m)
  moreover have "filter (\<lambda>(a, b). a \<noteq> fst x) m = m"
    using Cons.prems by (auto simp: filter_id_conv)
  ultimately show ?case by (cases x) auto
qed simp

lemma erase_overflowed_eq:
  assumes "groups_ok d"
  shows "erase_overflowed i d = d\<lparr>wd_sink_groups := filter (\<lambda>(w, j). j \<noteq> i) (wd_sink_groups d)\<rparr>"
proof -
  let ?m = "wd_sink_groups d" and ?w = "sg_worker (wd_heap d ! i)"
  have ok: "smap_ok ?m" and dist: "distinct (map snd ?m)" using assms by (auto simp: groups_ok_def)
  have only: "w = ?w" if "(w, i) \<in> set ?m" for w using groups_okD [OF assms that] by simp
  show ?thesis
  proof (cases "map_of ?m ?w = Some i")
    case True
    then have "(?w, i) \<in> set ?m" by (rule map_of_SomeD)
    then have "a \<noteq> ?w \<longleftrightarrow> b \<noteq> i" if "(a, b) \<in> set ?m" for a b
      using that only ok dist smap_ok_distinct [OF ok]
      by (metis eq_key_imp_eq_value)
    then have "filter (\<lambda>(a, b). a \<noteq> ?w) ?m = filter (\<lambda>(w, j). j \<noteq> i) ?m"
      by (intro filter_cong) auto
    with True show ?thesis by (simp add: erase_overflowed_def Let_def smap_erase_filter [OF ok])
  next
    case False
    then have "(w, i) \<notin> set ?m" for w
      using only map_of_is_SomeI [OF smap_ok_distinct [OF ok]] by metis
    then have "filter (\<lambda>(w, j). j \<noteq> i) ?m = ?m" by (auto simp: filter_id_conv)
    with False show ?thesis by (simp add: erase_overflowed_def)
  qed
qed

lemma groups_ok_filter:
  assumes "groups_ok d"
  shows "groups_ok (d\<lparr>wd_sink_groups := filter P (wd_sink_groups d)\<rparr>)"
proof -
  have "smap_ok (filter P m)" if "smap_ok m" for m :: "(worker, nat) smap"
    using that by (induction m) auto
  moreover have "distinct (map snd (filter P m))" if "distinct (map snd m)" for m :: "(worker, nat) smap"
    using that by (induction m) auto
  ultimately show ?thesis using assms by (auto simp: groups_ok_def)
qed

lemma fold_erase_overflowed:
  "groups_ok d \<Longrightarrow> fold erase_overflowed ov d =
     d\<lparr>wd_sink_groups := filter (\<lambda>(w, j). j \<notin> set ov) (wd_sink_groups d)\<rparr>"
proof (induction ov arbitrary: d)
  case (Cons i ov)
  let ?d = "d\<lparr>wd_sink_groups := filter (\<lambda>(w, j). j \<noteq> i) (wd_sink_groups d)\<rparr>"
  have "groups_ok ?d" by (rule groups_ok_filter [OF Cons.prems])
  from Cons.IH [OF this] show ?case
    by (simp add: erase_overflowed_eq [OF Cons.prems] conj_commute case_prod_unfold)
qed (simp add: filter_id_conv case_prod_unfold)

lemma direct_events_groups:
  assumes "\<forall>(w, i) \<in> set m. sg_worker (h ! i) = w" "distinct (map fst m)"
  shows "concat (map (\<lambda>i. direct_events live f own (h ! i)) (map snd m)) =
    (case map_of m own of None \<Rightarrow> []
     | Some i \<Rightarrow> map (\<lambda>s. Deliver s f) (filter live (sg_sinks (h ! i))))"
  using assms
proof (induction m)
  case (Cons x m)
  show ?case
  proof (cases "fst x = own")
    case True
    then have "map_of m own = None"
      using Cons.prems(2) by (auto simp: map_of_eq_None_iff)
    with Cons True show ?thesis by (cases x) (auto simp: direct_events_def)
  next
    case False
    with Cons show ?thesis by (cases x) (auto simp: direct_events_def)
  qed
qed simp

lemma publish_group_worker [simp]: "sg_worker (publish_group live f own g) = sg_worker g"
  by (simp add: publish_group_def enqueue_frame_def Let_def)

lemma groups_ok_heap:
  assumes "groups_ok d" "wd_sink_groups d' = wd_sink_groups d" "length (wd_heap d') = length (wd_heap d)"
    and "\<And>i. i < length (wd_heap d) \<Longrightarrow> sg_worker (wd_heap d' ! i) = sg_worker (wd_heap d ! i)"
  shows "groups_ok d'"
  using assms by (auto simp: groups_ok_def)

lemma publish_eq:
  assumes "groups_ok d"
  defines "h \<equiv> wd_heap d" and "own \<equiv> wd_owner d" and "is \<equiv> map snd (wd_sink_groups d)"
  shows "dispatcher_publish live f d =
    d\<lparr>wd_heap := map (\<lambda>j. if j \<in> set is then publish_group live f own (h ! j) else h ! j) [0..<length h],
      wd_posts := wd_posts d @ filter (\<lambda>i. schedules own (h ! i)) is,
      wd_events := wd_events d @
        (case map_of (wd_sink_groups d) own of None \<Rightarrow> []
         | Some i \<Rightarrow> map (\<lambda>s. Deliver s f) (filter live (sg_sinks (h ! i)))),
      wd_sink_groups := filter (\<lambda>(w, j). \<not> overflows own (h ! j)) (wd_sink_groups d)\<rparr>"
proof -
  let ?d' = "snd (publish_to_groups live f is d)" and ?ov = "filter (\<lambda>i. overflows own (h ! i)) is"
  have dist: "distinct is"
    using assms(1) by (simp add: is_def groups_ok_def)
  have sub: "set is \<subseteq> {..<length (wd_heap d)}"
    unfolding is_def by (auto dest: groups_okD [OF assms(1)])
  note eq = publish_to_groups_eq [OF dist sub, of live f, folded h_def own_def]
  have "groups_ok ?d'"
    unfolding eq snd_conv h_def by (rule groups_ok_heap [OF assms(1)]) simp_all
  note erased = fold_erase_overflowed [OF this, of ?ov]
  have "dispatcher_publish live f d = fold erase_overflowed ?ov ?d'"
    unfolding dispatcher_publish_def is_def [symmetric] eq by (simp only: Let_def prod.case snd_conv)
  then have "dispatcher_publish live f d =
      ?d'\<lparr>wd_sink_groups := filter (\<lambda>(w, j). j \<notin> set ?ov) (wd_sink_groups ?d')\<rparr>"
    unfolding erased .
  moreover have "filter (\<lambda>(w, j). j \<notin> set ?ov) (wd_sink_groups d) =
      filter (\<lambda>(w, j). \<not> overflows own (h ! j)) (wd_sink_groups d)"
    by (intro filter_cong) (auto simp: is_def image_iff)
  moreover have "concat (map (\<lambda>i. direct_events live f own (h ! i)) is) =
      (case map_of (wd_sink_groups d) own of None \<Rightarrow> []
       | Some i \<Rightarrow> map (\<lambda>s. Deliver s f) (filter live (sg_sinks (h ! i))))"
    using assms(1) unfolding is_def h_def
    by (intro direct_events_groups) (auto simp: groups_ok_def smap_ok_distinct)
  ultimately show ?thesis by (simp add: eq)
qed

section \<open>Every operation keeps the dispatcher well-formed\<close>

text \<open>The part of \<open>heap_ok\<close> about one group object and the jobs posted for it.\<close>

definition object_ok :: "nat list \<Rightarrow> nat \<Rightarrow> 'f sink_group \<Rightarrow> bool" where
  "object_ok posts i g \<longleftrightarrow>
     count_list posts i = (if sg_drain_queued g then 1 else 0) \<and>
     (sg_pending g \<noteq> [] \<or> sg_pending_end g \<longrightarrow> sg_drain_queued g) \<and>
     length (sg_pending g) \<le> max_pending_frames"

lemma heap_ok_iff:
  "heap_ok d \<longleftrightarrow> set (wd_posts d) \<subseteq> {..<length (wd_heap d)} \<and>
     (\<forall>i < length (wd_heap d). object_ok (wd_posts d) i (wd_heap d ! i)) \<and>
     (\<forall>(w, i) \<in> set (wd_sink_groups d). \<not> sg_pending_end (wd_heap d ! i))"
  by (auto simp: heap_ok_def object_ok_def)

lemma object_ok_sinks [simp]: "object_ok posts i (g\<lparr>sg_sinks := ss\<rparr>) = object_ok posts i g"
  by (simp add: object_ok_def)

lemma count_list_filter_distinct:
  "distinct xs \<Longrightarrow> count_list (filter P xs) x = (if x \<in> set xs \<and> P x then 1 else 0)"
  by (induction xs) auto

lemma object_ok_publish:
  assumes "object_ok posts i g" "distinct is" "h ! i = g"
  shows "object_ok (posts @ filter (\<lambda>i. schedules own (h ! i)) is) i
    (if i \<in> set is then publish_group live f own g else g)"
  using assms
  by (auto simp: object_ok_def publish_group_def schedules_def enqueue_frame_def Let_def
      count_list_filter_distinct split: if_splits)

lemma publish_ok:
  assumes "groups_ok d" "heap_ok d"
  shows "groups_ok (dispatcher_publish live f d) \<and> heap_ok (dispatcher_publish live f d)"
proof
  let ?d = "dispatcher_publish live f d" and ?is = "map snd (wd_sink_groups d)"
  note eq = publish_eq [OF assms(1), of live f]
  have dist: "distinct ?is" using assms(1) by (simp add: groups_ok_def)
  have sub: "set ?is \<subseteq> {..<length (wd_heap d)}" by (auto dest: groups_okD [OF assms(1)])
  have "groups_ok (?d\<lparr>wd_sink_groups := wd_sink_groups d\<rparr>)"
    unfolding eq by (rule groups_ok_heap [OF assms(1)]) simp_all
  then have "groups_ok (?d\<lparr>wd_sink_groups := filter (\<lambda>(w, j). \<not> overflows (wd_owner d) (wd_heap d ! j))
      (wd_sink_groups d)\<rparr>)"
    by (drule_tac groups_ok_filter) simp
  then show "groups_ok ?d" by (simp add: eq)
  have posts: "set (wd_posts ?d) \<subseteq> {..<length (wd_heap ?d)}"
    using assms(2) sub by (auto simp: eq heap_ok_iff)
  have objs: "object_ok (wd_posts ?d) i (wd_heap ?d ! i)" if "i < length (wd_heap ?d)" for i
    using assms(2) that object_ok_publish [OF _ dist refl, of "wd_posts d" i "wd_heap d" "wd_owner d" live f]
    by (simp add: eq heap_ok_iff cong: if_cong split del: if_split)
  have "\<not> sg_pending_end (wd_heap ?d ! i)" if "(w, i) \<in> set (wd_sink_groups ?d)" for w i
  proof -
    have wi: "(w, i) \<in> set (wd_sink_groups d)" "\<not> overflows (wd_owner d) (wd_heap d ! i)"
      using that by (auto simp: eq)
    then have "i < length (wd_heap d)" "i \<in> snd ` set (wd_sink_groups d)"
      "\<not> sg_pending_end (wd_heap d ! i)"
      using groups_okD [OF assms(1) wi(1)] assms(2) by (auto simp: heap_ok_iff intro: rev_image_eqI)
    with wi(2) show ?thesis
      by (auto simp: eq publish_group_def enqueue_frame_def overflows_def Let_def)
  qed
  with posts objs show "heap_ok ?d" by (auto simp: heap_ok_iff)
qed

lemma add_ok:
  assumes "groups_ok d" "heap_ok d"
  shows "groups_ok (dispatcher_add s w d) \<and> heap_ok (dispatcher_add s w d)"
proof (cases "map_of (wd_sink_groups d) w")
  case (Some i)
  let ?g = "wd_heap d ! i"
  have eq: "dispatcher_add s w d = d\<lparr>wd_heap := (wd_heap d)[i := ?g\<lparr>sg_sinks := sg_sinks ?g @ [s]\<rparr>]\<rparr>"
    using Some by (simp add: dispatcher_add_def Let_def)
  have i: "i < length (wd_heap d)" using groups_okD [OF assms(1) map_of_SomeD [OF Some]] by simp
  have "groups_ok (dispatcher_add s w d)"
    unfolding eq by (rule groups_ok_heap [OF assms(1)]) (simp_all add: nth_list_update i)
  moreover have "heap_ok (dispatcher_add s w d)"
    using assms(2) i by (auto simp: eq heap_ok_iff nth_list_update)
  ultimately show ?thesis by simp
next
  case None
  let ?n = "length (wd_heap d)"
  have eq: "dispatcher_add s w d = d\<lparr>wd_sink_groups := smap_put w ?n (wd_sink_groups d),
      wd_heap := wd_heap d @ [(new_sink_group w)\<lparr>sg_sinks := [s]\<rparr>]\<rparr>"
    using None by (simp add: dispatcher_add_def new_sink_group_def Let_def)
  have mem: "(v, j) \<in> set (smap_put w ?n (wd_sink_groups d)) \<longleftrightarrow>
      (v, j) = (w, ?n) \<or> (v, j) \<in> set (wd_sink_groups d)" for v j
    by (auto simp: set_smap_put_new [OF None])
  have snds: "set (map snd (wd_sink_groups d)) \<subseteq> {..<?n}" by (auto dest: groups_okD [OF assms(1)])
  have dist: "distinct (map snd (smap_put w ?n (wd_sink_groups d)))"
    using assms(1) snds by (intro distinct_smap_put) (auto simp: groups_ok_def)
  have "groups_ok (dispatcher_add s w d)"
    using assms(1) dist
    by (auto simp: eq groups_ok_def smap_ok_put mem nth_append new_sink_group_def)
  moreover have "heap_ok (dispatcher_add s w d)"
  proof -
    have "count_list (wd_posts d) ?n = 0"
      using assms(2) by (auto simp: heap_ok_iff count_list_0_iff)
    then have "object_ok (wd_posts d) ?n ((new_sink_group w)\<lparr>sg_sinks := [s]\<rparr>)"
      by (simp add: object_ok_def new_sink_group_def)
    with assms snds show ?thesis
      by (auto simp: eq heap_ok_iff mem nth_append new_sink_group_def less_Suc_eq dest: groups_okD)
  qed
  ultimately show ?thesis by simp
qed

lemma set_sinks_ok:
  fixes ss :: "sink_id list"
  assumes "groups_ok d" "heap_ok d" "i < length (wd_heap d)"
  defines "d' \<equiv> d\<lparr>wd_heap := (wd_heap d)[i := (wd_heap d ! i)\<lparr>sg_sinks := ss\<rparr>]\<rparr>"
  shows "groups_ok d' \<and> heap_ok d'"
proof
  show "groups_ok d'"
    unfolding d'_def by (rule groups_ok_heap [OF assms(1)]) (simp_all add: nth_list_update assms(3))
  show "heap_ok d'"
    using assms(2,3) by (auto simp: d'_def heap_ok_iff nth_list_update)
qed

lemma erase_ok:
  assumes "groups_ok d" "heap_ok d"
  shows "groups_ok (d\<lparr>wd_sink_groups := smap_erase w (wd_sink_groups d)\<rparr>) \<and>
    heap_ok (d\<lparr>wd_sink_groups := smap_erase w (wd_sink_groups d)\<rparr>)"
  using groups_ok_erase [OF assms(1)] assms(2) set_smap_erase [of w "wd_sink_groups d"]
  by (auto simp: heap_ok_iff)

lemma remove_from_groups_ok:
  assumes "groups_ok d" "heap_ok d" "\<forall>(w, i) \<in> set m. i < length (wd_heap d)"
  shows "groups_ok (remove_from_groups live s m d) \<and> heap_ok (remove_from_groups live s m d)"
  using assms
proof (induction m arbitrary: d)
  case (Cons x m)
  obtain w i where x: "x = (w, i)" by (cases x)
  let ?ss = "filter (\<lambda>t. live t \<and> t \<noteq> s) (sg_sinks (wd_heap d ! i))"
  let ?d1 = "d\<lparr>wd_heap := (wd_heap d)[i := (wd_heap d ! i)\<lparr>sg_sinks := ?ss\<rparr>]\<rparr>"
  let ?d2 = "if ?ss = [] then ?d1\<lparr>wd_sink_groups := smap_erase w (wd_sink_groups ?d1)\<rparr> else ?d1"
  have "groups_ok ?d1 \<and> heap_ok ?d1"
    using Cons.prems x by (intro set_sinks_ok) auto
  then have "groups_ok ?d2 \<and> heap_ok ?d2"
    using erase_ok [of ?d1 w] by (auto simp del: worker_sink_dispatcher.update_convs)
  moreover have "remove_from_groups live s (x # m) d = remove_from_groups live s m ?d2"
    using x by (simp add: Let_def)
  ultimately show ?case
    using Cons.IH [of ?d2] Cons.prems(3) by auto
qed simp

lemma end_groups_ok:
  assumes "wd_sink_groups d = []" "heap_ok d" "\<forall>(w, i) \<in> set m. i < length (wd_heap d)"
  shows "wd_sink_groups (end_groups live m d) = [] \<and> heap_ok (end_groups live m d)"
  using assms
proof (induction m arbitrary: d)
  case (Cons x m)
  obtain w i where x: "x = (w, i)" by (cases x)
  have i: "i < length (wd_heap d)" using Cons.prems(3) x by simp
  let ?g = "wd_heap d ! i"
  define d1 where "d1 =
    (if w = wd_owner d then call_group live OnEnd i d
     else d\<lparr>wd_heap := (wd_heap d)[i := fst (mark_end ?g)],
            wd_posts := wd_posts d @ (if snd (mark_end ?g) then [i] else [])\<rparr>)"
  have step: "end_groups live (x # m) d = end_groups live m d1"
    by (simp add: x d1_def split_beta)
  have "object_ok (wd_posts d) i ?g" using Cons.prems(2) i by (simp add: heap_ok_iff)
  then have "heap_ok d1" "wd_sink_groups d1 = []" "length (wd_heap d1) = length (wd_heap d)"
    using Cons.prems(1,2) i
    by (auto simp: d1_def heap_ok_iff call_group_def snapshot_sinks_def nth_list_update Let_def
        object_ok_def mark_end_def split: if_splits)
  with Cons.IH [of d1] Cons.prems(3) show ?case by (simp add: step)
qed simp

lemma run_drain_ok:
  assumes "groups_ok d" "heap_ok d"
  shows "groups_ok (run_drain live late k d) \<and> heap_ok (run_drain live late k d)"
proof (cases "k < length (wd_posts d)")
  case False
  then show ?thesis using assms by (simp add: run_drain_def)
next
  case True
  define i where "i = wd_posts d ! k"
  define rest where "rest = take k (wd_posts d) @ drop (Suc k) (wd_posts d)"
  obtain events again g where dr: "drain live late (wd_heap d ! i) = (events, again, g)" by (metis prod_cases3)
  note o = drain_owed [OF dr]
  have posts: "wd_posts d = take k (wd_posts d) @ i # drop (Suc k) (wd_posts d)"
    unfolding i_def by (rule id_take_nth_drop [OF True])
  have cnt: "count_list (wd_posts d) j = count_list rest j + (if j = i then 1 else 0)" for j
    by (subst posts) (simp add: rest_def)
  have set: "set (wd_posts d) = insert i (set rest)"
    by (subst posts) (auto simp: rest_def)
  have i: "i < length (wd_heap d)" and rest: "set rest \<subseteq> {..<length (wd_heap d)}"
    using assms(2) set by (auto simp: heap_ok_iff)
  have obj: "object_ok (wd_posts d) i (wd_heap d ! i)" using assms(2) i by (simp add: heap_ok_iff)
  have eq: "run_drain live late k d = d\<lparr>wd_heap := (wd_heap d)[i := g],
      wd_posts := rest @ (if again then [i] else []), wd_events := wd_events d @ events\<rparr>"
    using True dr by (simp add: run_drain_def i_def rest_def Let_def)
  have "groups_ok (run_drain live late k d)"
    unfolding eq by (rule groups_ok_heap [OF assms(1)]) (simp_all add: nth_list_update i o)
  moreover have "object_ok (rest @ (if again then [i] else [])) i g"
    using obj cnt [of i] o by (auto simp: object_ok_def split: if_splits)
  moreover have "object_ok (rest @ (if again then [i] else [])) j (wd_heap d ! j)"
    if "j < length (wd_heap d)" "j \<noteq> i" for j
    using assms(2) that cnt [of j] by (simp add: heap_ok_iff object_ok_def)
  moreover have "\<not> sg_pending_end g" if "\<not> sg_pending_end (wd_heap d ! i)"
    using o that by (auto split: if_splits)
  ultimately show ?thesis
    using assms(2) i rest by (auto simp: eq heap_ok_iff nth_list_update split: if_splits)
qed

text \<open>Every history of a dispatcher; which sinks are alive may change at every step.\<close>

inductive dispatcher_reachable :: "'f worker_sink_dispatcher \<Rightarrow> bool" where
  disp_new: "dispatcher_reachable (new_dispatcher owner)"
| disp_add: "dispatcher_reachable d \<Longrightarrow> dispatcher_reachable (dispatcher_add s w d)"
| disp_remove: "dispatcher_reachable d \<Longrightarrow> dispatcher_reachable (dispatcher_remove live s d)"
| disp_publish: "dispatcher_reachable d \<Longrightarrow> dispatcher_reachable (dispatcher_publish live f d)"
| disp_end: "dispatcher_reachable d \<Longrightarrow> dispatcher_reachable (dispatcher_end live d)"
| disp_drain: "dispatcher_reachable d \<Longrightarrow> dispatcher_reachable (run_drain live late k d)"

lemma dispatcher_reachable_ok: "dispatcher_reachable d \<Longrightarrow> groups_ok d \<and> heap_ok d"
proof (induction rule: dispatcher_reachable.induct)
  case (disp_new owner)
  then show ?case by (simp add: new_dispatcher_def groups_ok_def heap_ok_def)
next
  case (disp_remove d live s)
  then have "\<forall>(w, i) \<in> set (wd_sink_groups d). i < length (wd_heap d)"
    by (auto simp: groups_ok_def)
  with disp_remove show ?case by (simp add: dispatcher_remove_def remove_from_groups_ok)
next
  case (disp_end d live)
  let ?d = "d\<lparr>wd_sink_groups := []\<rparr>"
  have "heap_ok ?d" "\<forall>(w, i) \<in> set (wd_sink_groups d). i < length (wd_heap ?d)"
    using disp_end.IH by (auto simp: heap_ok_iff groups_ok_def)
  then have "wd_sink_groups (dispatcher_end live d) = [] \<and> heap_ok (dispatcher_end live d)"
    unfolding dispatcher_end_def by (intro end_groups_ok) simp_all
  then show ?case by (simp add: groups_ok_def)
qed (simp_all add: add_ok publish_ok run_drain_ok)

section \<open>The frames in a dispatcher\<close>

text \<open>Every frame that waits in a group or was delivered satisfies \<open>P\<close>.\<close>

definition all_frames :: "('f \<Rightarrow> bool) \<Rightarrow> 'f worker_sink_dispatcher \<Rightarrow> bool" where
  "all_frames P d \<longleftrightarrow>
     (\<forall>s f. Deliver s f \<in> set (wd_events d) \<longrightarrow> P f) \<and>
     (\<forall>g \<in> set (wd_heap d). \<forall>f \<in> set (sg_pending g). P f)"

lemma all_frames_update:
  assumes "all_frames P d" "\<forall>f \<in> set (sg_pending g). P f"
  shows "all_frames P (d\<lparr>wd_heap := (wd_heap d)[i := g]\<rparr>)"
  using assms set_update_subset_insert [of "wd_heap d" i g] by (auto simp: all_frames_def)

lemma all_frames_nth: "all_frames P d \<Longrightarrow> i < length (wd_heap d) \<Longrightarrow> \<forall>f \<in> set (sg_pending (wd_heap d ! i)). P f"
  using nth_mem [of i "wd_heap d"] by (auto simp: all_frames_def)

lemma all_frames_simps [simp]:
  "all_frames P (d\<lparr>wd_sink_groups := m\<rparr>) = all_frames P d"
  "all_frames P (d\<lparr>wd_posts := ps\<rparr>) = all_frames P d"
  by (simp_all add: all_frames_def)

lemma all_frames_sinks:
  assumes "all_frames P d" "i < length (wd_heap d)"
  shows "all_frames P (d\<lparr>wd_heap := (wd_heap d)[i := (wd_heap d ! i)\<lparr>sg_sinks := ss\<rparr>]\<rparr>)"
  using assms by (intro all_frames_update) (simp_all add: all_frames_nth)

lemma all_frames_add:
  assumes "groups_ok d" "all_frames P d"
  shows "all_frames P (dispatcher_add s w d)"
proof (cases "map_of (wd_sink_groups d) w")
  case (Some i)
  have "i < length (wd_heap d)" using groups_okD [OF assms(1) map_of_SomeD [OF Some]] by simp
  then show ?thesis
    using Some all_frames_sinks [OF assms(2)] by (simp add: dispatcher_add_def Let_def)
next
  case None
  then show ?thesis
    using assms(2) by (auto simp: dispatcher_add_def new_sink_group_def all_frames_def Let_def)
qed

lemma all_frames_remove:
  assumes "all_frames P d" "\<forall>(w, i) \<in> set m. i < length (wd_heap d)"
  shows "all_frames P (remove_from_groups live s m d)"
  using assms
proof (induction m arbitrary: d)
  case (Cons x m)
  then show ?case
    using all_frames_sinks [OF Cons.prems(1), of "snd x"]
    by (cases x) (auto simp: Let_def)
qed simp

lemma all_frames_publish:
  assumes "groups_ok d" "all_frames P d" "P f"
  shows "all_frames P (dispatcher_publish live f d)"
proof -
  have "\<forall>x \<in> set (sg_pending (publish_group live f own g)). P x" if "\<forall>x \<in> set (sg_pending g). P x" for own g
    using that assms(3) by (auto simp: publish_group_def enqueue_frame_def Let_def)
  then have "P x" if "j < length (wd_heap d)"
      "x \<in> set (sg_pending (publish_group live f (wd_owner d) (wd_heap d ! j)))" for j x
    using all_frames_nth [OF assms(2) that(1)] that(2) by blast
  then show ?thesis
    using assms(2,3) by (auto simp: publish_eq [OF assms(1)] all_frames_def split: option.splits)
qed

lemma all_frames_end:
  assumes "all_frames P d" "\<forall>(w, i) \<in> set m. i < length (wd_heap d)"
  shows "all_frames P (end_groups live m d)"
  using assms
proof (induction m arbitrary: d)
  case (Cons x m)
  obtain w i where x: "x = (w, i)" by (cases x)
  have i: "i < length (wd_heap d)" using Cons.prems(2) x by simp
  let ?d1 = "d\<lparr>wd_heap := (wd_heap d)[i := fst (mark_end (wd_heap d ! i))]\<rparr>"
  have "all_frames P ?d1"
    using all_frames_nth [OF Cons.prems(1) i]
    by (intro all_frames_update Cons.prems) (simp add: mark_end_def)
  moreover have "all_frames P (call_group live OnEnd i d)"
    using all_frames_sinks [OF Cons.prems(1) i]
    by (auto simp: call_group_def snapshot_sinks_def all_frames_def Let_def)
  ultimately show ?case
    using Cons.prems(2) Cons.IH [of "call_group live OnEnd i d"]
      Cons.IH [of "?d1\<lparr>wd_posts := wd_posts d @ (if snd (mark_end (wd_heap d ! i)) then [i] else [])\<rparr>"]
    by (simp add: x split_beta call_group_def Let_def)
qed simp

lemma owed_frames: "Deliver s f \<in> set (owed live g) \<Longrightarrow> f \<in> set (sg_pending g)"
  by (auto simp: owed_def)

lemma all_frames_drain:
  assumes "all_frames P d" "heap_ok d"
  shows "all_frames P (run_drain live late k d)"
proof (cases "k < length (wd_posts d)")
  case True
  define i where "i = wd_posts d ! k"
  obtain events again g where dr: "drain live late (wd_heap d ! i) = (events, again, g)" by (metis prod_cases3)
  note o = drain_owed [OF dr]
  have "i < length (wd_heap d)"
    using assms(2) nth_mem [OF True] unfolding i_def heap_ok_def by blast
  then have pend: "\<forall>f \<in> set (sg_pending (wd_heap d ! i)). P f" by (rule all_frames_nth [OF assms(1)])
  then have "\<forall>f \<in> set (sg_pending g). P f" using o set_mono_suffix by blast
  then have "all_frames P (d\<lparr>wd_heap := (wd_heap d)[i := g]\<rparr>)" by (rule all_frames_update [OF assms(1)])
  moreover have "P f" if "Deliver s f \<in> set events" for s f
    using pend owed_frames [of s f live "wd_heap d ! i"] o that by (metis Un_iff set_append)
  ultimately show ?thesis
    using True dr by (auto simp: run_drain_def i_def [symmetric] all_frames_def Let_def)
qed (use assms in \<open>simp add: run_drain_def\<close>)

text \<open>
  C5: publishing one frame reaches every group and only as it should. The owner's sinks are
  called at once. A group of another worker with room owes its live sinks exactly one more
  delivery, at the end, and has a drain job posted. A group that is full is cut off alone:
  its waiting frames are dropped, it owes its sinks only the end, and it leaves the
  dispatcher; every other group stays.
\<close>

theorem publish_effect:
  fixes f :: 'f and live :: "sink_id \<Rightarrow> bool"
  assumes "dispatcher_reachable d" and wi: "(w, i) \<in> set (wd_sink_groups d)"
  defines "d' \<equiv> dispatcher_publish live f d" and "g \<equiv> wd_heap d ! i"
  defines "g' \<equiv> wd_heap d' ! i"
  shows "if w = wd_owner d
     then wd_events d' = wd_events d @ map (\<lambda>s. Deliver s f) (filter live (sg_sinks g)) \<and>
       (w, i) \<in> set (wd_sink_groups d')
     else if length (sg_pending g) < max_pending_frames
     then owed live g' = owed live g @ map (\<lambda>s. Deliver s f) (filter live (sg_sinks g)) \<and>
       i \<in> set (wd_posts d') \<and> (w, i) \<in> set (wd_sink_groups d')
     else owed live g' = map OnEnd (filter live (sg_sinks g)) \<and>
       i \<in> set (wd_posts d') \<and> (w, i) \<notin> set (wd_sink_groups d')"
proof -
  have gok: "groups_ok d" and hok: "heap_ok d"
    using dispatcher_reachable_ok [OF assms(1)] by simp_all
  have i: "i < length (wd_heap d)" "sg_worker g = w" "i \<in> snd ` set (wd_sink_groups d)"
    using groups_okD [OF gok wi] wi by (auto simp: g_def intro: rev_image_eqI)
  have pe: "\<not> sg_pending_end g"
    using hok wi by (auto simp: heap_ok_def g_def)
  have posted: "i \<in> set (wd_posts d)" if "sg_drain_queued g"
  proof (rule ccontr)
    assume "i \<notin> set (wd_posts d)"
    then have "count_list (wd_posts d) i = 0" by (simp add: count_list_0_iff)
    with that hok i(1) show False by (auto simp: heap_ok_def g_def)
  qed
  have g': "g' = publish_group live f (wd_owner d) g"
    using i by (simp add: g'_def g_def d'_def publish_eq [OF gok])
  have own: "map_of (wd_sink_groups d) w = Some i"
    using gok wi by (simp add: groups_ok_def smap_ok_distinct)
  have ev: "w = wd_owner d \<Longrightarrow> wd_events d' = wd_events d @ map (\<lambda>s. Deliver s f) (filter live (sg_sinks g))"
    using own by (simp add: d'_def publish_eq [OF gok] g_def)
  have post: "w \<noteq> wd_owner d \<Longrightarrow> i \<in> set (wd_posts d')"
    using i pe posted by (auto simp: d'_def publish_eq [OF gok] schedules_def g_def [symmetric])
  have grp: "(w, i) \<in> set (wd_sink_groups d') \<longleftrightarrow> \<not> overflows (wd_owner d) g"
    using wi by (simp add: d'_def publish_eq [OF gok] g_def)
  have "w \<noteq> wd_owner d \<Longrightarrow> owed live g' =
      (if length (sg_pending g) < max_pending_frames
       then owed live g @ map (\<lambda>s. Deliver s f) (filter live (sg_sinks g))
       else map OnEnd (filter live (sg_sinks g)))"
    using i(2) pe by (simp add: g' publish_group_def enqueue_frame_def owed_def Let_def)
  with ev post grp i(2) pe show ?thesis by (auto simp: overflows_def)
qed

definition disp_sample :: "nat worker_sink_dispatcher" where
  "disp_sample = dispatcher_add 6 1 (dispatcher_add 5 0 (new_dispatcher 0))"

lemma disp_sample_eq:
  "disp_sample = \<lparr>wd_owner = 0, wd_sink_groups = [(0, 0), (1, 1)],
     wd_heap = [(new_sink_group 0)\<lparr>sg_sinks := [5]\<rparr>, (new_sink_group 1)\<lparr>sg_sinks := [6]\<rparr>],
     wd_posts = [], wd_events = []\<rparr>"
  by (simp add: disp_sample_def dispatcher_add_def new_dispatcher_def new_sink_group_def Let_def)

theorem publish_effect_witness:
  "wd_events (dispatcher_publish (\<lambda>_. True) 42 disp_sample) = [Deliver 5 42] \<and>
   owed (\<lambda>_. True) (wd_heap (dispatcher_publish (\<lambda>_. True) 42 disp_sample) ! 1) = [Deliver 6 42]"
proof -
  have r: "dispatcher_reachable disp_sample"
    unfolding disp_sample_def by (intro disp_add disp_new)
  have "(0, 0) \<in> set (wd_sink_groups disp_sample)" "(1, 1) \<in> set (wd_sink_groups disp_sample)"
    by (simp_all add: disp_sample_eq)
  from publish_effect [OF r this(1), of "\<lambda>_. True" 42] publish_effect [OF r this(2), of "\<lambda>_. True" 42]
  show ?thesis
    by (simp add: disp_sample_eq new_sink_group_def max_pending_frames_def owed_def)
qed

end
