(* ===== verification/Media_Stream.thy ===== *)
theory Media_Stream
  imports Media_Types Sink_Dispatcher_Props
begin

text \<open>
  \<open>media/core/media_stream.cpp\<close> and \<open>media/core/stream_registry.cpp\<close>: a stream with its tracks,
  its dispatcher and its life cycle (tracks are set once, then frames, then the end), and
  the directory of streams by name. Operations that the code moves to the owner's executor
  are modelled as they run there. A \<open>shared_ptr\<close> argument that may be null is an option;
  streams in the registry are named by their address (\<open>stream_ref\<close>).
\<close>

section \<open>The stream\<close>

record media_stream =
  ms_stream_id :: string
  ms_worker :: worker
  ms_tracks :: "media_track list"
  ms_opus_stream :: "nat option"
  ms_dispatcher :: "media_frame worker_sink_dispatcher"
  ms_ps_output :: "nat option"
  ms_flv_output :: "nat option"
  ms_ended :: bool
  ms_posted_ends :: "sink_id list"

definition new_media_stream :: "string \<Rightarrow> worker \<Rightarrow> media_stream" where
  "new_media_stream stream_id w =
     \<lparr>ms_stream_id = stream_id, ms_worker = w, ms_tracks = [], ms_opus_stream = None,
      ms_dispatcher = new_dispatcher w, ms_ps_output = None, ms_flv_output = None, ms_ended = False,
      ms_posted_ends = []\<rparr>"

text \<open>The loop over the new tracks with its map of ids.\<close>

fun check_track_ids :: "media_track list \<Rightarrow> (track_id, bool) smap \<Rightarrow> bool" where
  "check_track_ids [] ids = True"
| "check_track_ids (t # ts) ids =
     (if mt_id t = 0 then False
      else let (ids', inserted) = smap_emplace (mt_id t) True ids
           in if \<not> inserted then False else check_track_ids ts ids')"

definition set_tracks :: "media_track list \<Rightarrow> media_stream \<Rightarrow> bool \<times> media_stream" where
  "set_tracks tracks s =
     (if ms_ended s \<or> ms_tracks s \<noteq> [] \<or> tracks = [] then (False, s)
      else if \<not> check_track_ids tracks [] then (False, s)
      else (True, s\<lparr>ms_tracks := tracks\<rparr>))"

definition set_opus_stream :: "nat option \<Rightarrow> media_stream \<Rightarrow> media_stream" where
  "set_opus_stream stream s = s\<lparr>ms_opus_stream := stream\<rparr>"

definition add_sink :: "(sink_id \<times> worker) option \<Rightarrow> media_stream \<Rightarrow> media_stream" where
  "add_sink sink s =
     (case sink of None \<Rightarrow> s
      | Some (k, target) \<Rightarrow>
          if ms_ended s then s\<lparr>ms_posted_ends := ms_posted_ends s @ [k]\<rparr>
          else s\<lparr>ms_dispatcher := dispatcher_add k target (ms_dispatcher s)\<rparr>)"

definition remove_sink :: "(sink_id \<Rightarrow> bool) \<Rightarrow> sink_id option \<Rightarrow> media_stream \<Rightarrow> media_stream" where
  "remove_sink live sink s =
     (case sink of None \<Rightarrow> s
      | Some k \<Rightarrow> s\<lparr>ms_dispatcher := dispatcher_remove live k (ms_dispatcher s)\<rparr>)"

definition has_sinks :: "(sink_id \<Rightarrow> bool) \<Rightarrow> media_stream \<Rightarrow> bool" where
  "has_sinks live s = has_live_sinks live (ms_dispatcher s)"

definition publish :: "(sink_id \<Rightarrow> bool) \<Rightarrow> media_frame \<Rightarrow> media_stream \<Rightarrow> media_stream" where
  "publish live frame s =
     (if ms_ended s \<or> mf_payload frame = None \<or> mf_payload frame = Some [] then s
      else case find (\<lambda>t. mt_id t = mf_track frame) (ms_tracks s) of
        None \<Rightarrow> s
      | Some track \<Rightarrow>
          let frame' = (if (mt_codec track = H264 \<or> mt_codec track = H265) \<and> \<not> mf_length_prefixed frame
                        then frame\<lparr>mf_length_prefixed := True\<rparr> else frame)
          in s\<lparr>ms_dispatcher := dispatcher_publish live frame' (ms_dispatcher s)\<rparr>)"

definition stream_end :: "(sink_id \<Rightarrow> bool) \<Rightarrow> media_stream \<Rightarrow> media_stream" where
  "stream_end live s =
     (if ms_ended s then s
      else s\<lparr>ms_ended := True, ms_dispatcher := dispatcher_end live (ms_dispatcher s)\<rparr>)"

text \<open>
  The shared outputs are kept as weak pointers: \<open>alive\<close> says which are still alive, \<open>started\<close>
  is the answer of the new output's \<open>startup\<close>, \<open>fresh\<close> its address.
\<close>

definition ps_output :: "(nat \<Rightarrow> bool) \<Rightarrow> bool \<Rightarrow> nat \<Rightarrow> media_stream \<Rightarrow> nat option \<times> media_stream" where
  "ps_output alive started fresh s =
     (case ms_ps_output s of
        Some r \<Rightarrow> if alive r then (Some r, s)
          else if started then (Some fresh, s\<lparr>ms_ps_output := Some fresh\<rparr>) else (None, s)
      | None \<Rightarrow> if started then (Some fresh, s\<lparr>ms_ps_output := Some fresh\<rparr>) else (None, s))"

definition flv_output :: "(nat \<Rightarrow> bool) \<Rightarrow> bool \<Rightarrow> nat \<Rightarrow> media_stream \<Rightarrow> nat option \<times> media_stream" where
  "flv_output alive started fresh s =
     (case ms_flv_output s of
        Some r \<Rightarrow> if alive r then (Some r, s)
          else if started then (Some fresh, s\<lparr>ms_flv_output := Some fresh\<rparr>) else (None, s)
      | None \<Rightarrow> if started then (Some fresh, s\<lparr>ms_flv_output := Some fresh\<rparr>) else (None, s))"

text \<open>A worker runs a drain job of the stream's dispatcher.\<close>

definition stream_drain :: "(sink_id \<Rightarrow> bool) \<Rightarrow> bool list \<Rightarrow> nat \<Rightarrow> media_stream \<Rightarrow> media_stream" where
  "stream_drain live late k s = s\<lparr>ms_dispatcher := run_drain live late k (ms_dispatcher s)\<rparr>"

inductive stream_reachable :: "media_stream \<Rightarrow> bool" where
  str_new: "stream_reachable (new_media_stream name w)"
| str_tracks: "stream_reachable s \<Longrightarrow> stream_reachable (snd (set_tracks tracks s))"
| str_opus: "stream_reachable s \<Longrightarrow> stream_reachable (set_opus_stream st s)"
| str_add: "stream_reachable s \<Longrightarrow> stream_reachable (add_sink sink s)"
| str_remove: "stream_reachable s \<Longrightarrow> stream_reachable (remove_sink live k s)"
| str_publish: "stream_reachable s \<Longrightarrow> stream_reachable (publish live frame s)"
| str_end: "stream_reachable s \<Longrightarrow> stream_reachable (stream_end live s)"
| str_ps: "stream_reachable s \<Longrightarrow> stream_reachable (snd (ps_output alive started fresh s))"
| str_flv: "stream_reachable s \<Longrightarrow> stream_reachable (snd (flv_output alive started fresh s))"
| str_drain: "stream_reachable s \<Longrightarrow> stream_reachable (stream_drain live late n s)"

section \<open>Tracks\<close>

lemma check_track_ids_iff:
  assumes "smap_ok ids"
  shows "check_track_ids ts ids \<longleftrightarrow>
    distinct (map mt_id ts) \<and> 0 \<notin> set (map mt_id ts) \<and> set (map mt_id ts) \<inter> dom (map_of ids) = {}"
  using assms
proof (induction ts arbitrary: ids)
  case (Cons t ts)
  have ok: "smap_ok (fst (smap_emplace (mt_id t) True ids))" by (rule smap_ok_emplace [OF Cons.prems])
  show ?case
  proof (cases "map_of ids (mt_id t)")
    case None
    have "dom (map_of (fst (smap_emplace (mt_id t) True ids))) = insert (mt_id t) (dom (map_of ids))"
      using None by (simp add: smap_emplace_find)
    with None Cons.IH [OF ok] show ?thesis
      by (auto simp: split_beta Let_def smap_emplace_inserted)
  next
    case (Some b)
    then show ?thesis by (auto simp: split_beta Let_def smap_emplace_inserted)
  qed
qed simp

lemma set_tracks_cases:
  "set_tracks ts s =
     (if \<not> ms_ended s \<and> ms_tracks s = [] \<and> ts \<noteq> [] \<and> distinct (map mt_id ts) \<and> 0 \<notin> set (map mt_id ts)
      then (True, s\<lparr>ms_tracks := ts\<rparr>) else (False, s))"
  by (auto simp: set_tracks_def check_track_ids_iff)

section \<open>Frames\<close>

definition frame_ok :: "media_track list \<Rightarrow> media_frame \<Rightarrow> bool" where
  "frame_ok tracks f \<longleftrightarrow>
     (\<exists>payload. mf_payload f = Some payload \<and> payload \<noteq> []) \<and>
     (\<exists>t \<in> set tracks. mt_id t = mf_track f \<and>
        (mt_codec t = H264 \<or> mt_codec t = H265 \<longrightarrow> mf_length_prefixed f))"

definition stream_inv :: "media_stream \<Rightarrow> bool" where
  "stream_inv s \<longleftrightarrow>
     dispatcher_reachable (ms_dispatcher s) \<and>
     all_frames (frame_ok (ms_tracks s)) (ms_dispatcher s) \<and>
     distinct (map mt_id (ms_tracks s)) \<and> 0 \<notin> set (map mt_id (ms_tracks s)) \<and>
     (ms_ended s \<longrightarrow> wd_sink_groups (ms_dispatcher s) = [])"

lemma frame_ok_no_tracks: "\<not> frame_ok [] f"
  by (simp add: frame_ok_def)

lemma publish_cases:
  obtains (ignored) "publish live f s = s"
  | (sent) f' where "\<not> ms_ended s" "frame_ok (ms_tracks s) f'"
      "f' = f \<or> f' = f\<lparr>mf_length_prefixed := True\<rparr>"
      "publish live f s = s\<lparr>ms_dispatcher := dispatcher_publish live f' (ms_dispatcher s)\<rparr>"
proof (cases "ms_ended s \<or> mf_payload f = None \<or> mf_payload f = Some []")
  case False
  then obtain p where p: "mf_payload f = Some p" "p \<noteq> []" "\<not> ms_ended s" by auto
  show ?thesis
  proof (cases "find (\<lambda>t. mt_id t = mf_track f) (ms_tracks s)")
    case (Some t)
    then have t: "t \<in> set (ms_tracks s)" "mt_id t = mf_track f"
      by (auto simp: find_Some_iff)
    let ?f = "if (mt_codec t = H264 \<or> mt_codec t = H265) \<and> \<not> mf_length_prefixed f
      then f\<lparr>mf_length_prefixed := True\<rparr> else f"
    have "publish live f s = s\<lparr>ms_dispatcher := dispatcher_publish live ?f (ms_dispatcher s)\<rparr>"
      using p Some by (simp add: publish_def Let_def)
    moreover have "frame_ok (ms_tracks s) ?f"
      using p t by (auto simp: frame_ok_def)
    moreover have "?f = f \<or> ?f = f\<lparr>mf_length_prefixed := True\<rparr>" by simp
    ultimately show ?thesis using p(3) sent by blast
  qed (use False ignored in \<open>simp add: publish_def\<close>)
qed (use ignored in \<open>simp add: publish_def\<close>)

lemma publish_no_groups:
  assumes "groups_ok d" "wd_sink_groups d = []"
  shows "wd_sink_groups (dispatcher_publish live f d) = []"
  by (simp add: publish_eq [OF assms(1)] assms(2))

lemma run_drain_groups: "wd_sink_groups (run_drain live late k d) = wd_sink_groups d"
  by (simp add: run_drain_def Let_def split_beta)

lemma end_groups_groups: "wd_sink_groups (end_groups live m d) = wd_sink_groups d"
proof (induction m arbitrary: d)
  case (Cons x m)
  then show ?case
    by (cases x) (simp add: call_group_def snapshot_sinks_def split_beta Let_def)
qed simp

lemma stream_inv_reachable: "stream_reachable s \<Longrightarrow> stream_inv s"
proof (induction rule: stream_reachable.induct)
  case (str_new name w)
  then show ?case
    by (simp add: stream_inv_def new_media_stream_def disp_new)
      (simp add: new_dispatcher_def all_frames_def)
next
  case (str_tracks s tracks)
  show ?case
  proof (cases "ms_tracks s = []")
    case True
    with str_tracks have "all_frames P (ms_dispatcher s)" for P
      by (auto simp: stream_inv_def all_frames_def frame_ok_no_tracks)
    with str_tracks show ?thesis by (auto simp: set_tracks_cases stream_inv_def)
  qed (use str_tracks in \<open>simp add: set_tracks_cases\<close>)
next
  case (str_opus s st)
  then show ?case by (simp add: set_opus_stream_def stream_inv_def)
next
  case (str_add s sink)
  then have ok: "groups_ok (ms_dispatcher s)" by (simp add: stream_inv_def dispatcher_reachable_ok)
  with str_add show ?case
    by (auto simp: add_sink_def stream_inv_def all_frames_add intro: disp_add split: option.splits)
next
  case (str_remove s live k)
  let ?d = "ms_dispatcher s"
  have sub: "\<forall>(w, i) \<in> set (wd_sink_groups ?d). i < length (wd_heap ?d)"
    using str_remove dispatcher_reachable_ok [of ?d] by (auto simp: stream_inv_def groups_ok_def)
  have "remove_from_groups live x [] ?d = ?d" for x by simp
  with str_remove sub show ?case
    by (auto simp: remove_sink_def stream_inv_def dispatcher_remove_def [symmetric]
        intro: disp_remove split: option.splits)
      (auto simp: dispatcher_remove_def all_frames_remove)
next
  case (str_publish s live frame)
  then have ok: "groups_ok (ms_dispatcher s)" by (simp add: stream_inv_def dispatcher_reachable_ok)
  show ?case
  proof (cases rule: publish_cases [of live frame s])
    case (sent f')
    with str_publish ok show ?thesis
      by (simp add: stream_inv_def disp_publish all_frames_publish publish_no_groups)
  qed (use str_publish in simp)
next
  case (str_end s live)
  let ?d = "ms_dispatcher s"
  have sub: "\<forall>(w, i) \<in> set (wd_sink_groups ?d). i < length (wd_heap ?d)"
    using str_end dispatcher_reachable_ok [of ?d] by (auto simp: stream_inv_def groups_ok_def)
  have "all_frames (frame_ok (ms_tracks s)) (dispatcher_end live ?d)"
    using str_end sub by (simp add: dispatcher_end_def all_frames_end stream_inv_def)
  moreover have "wd_sink_groups (dispatcher_end live ?d) = []"
    by (simp add: dispatcher_end_def end_groups_groups)
  ultimately show ?case
    using str_end by (simp add: stream_end_def stream_inv_def disp_end)
next
  case (str_ps s alive started fresh)
  then show ?case by (simp add: ps_output_def stream_inv_def split: option.splits)
next
  case (str_flv s alive started fresh)
  then show ?case by (simp add: flv_output_def stream_inv_def split: option.splits)
next
  case (str_drain s live late n)
  then have "heap_ok (ms_dispatcher s)" by (simp add: stream_inv_def dispatcher_reachable_ok)
  with str_drain show ?case
    by (simp add: stream_drain_def stream_inv_def disp_drain all_frames_drain run_drain_groups)
qed

text \<open>
  C14: whatever sinks, drains and frames a stream has seen, every frame that waits in it or was
  delivered from it belongs to a declared track, has a non-empty payload and, for H.264 and
  H.265, carries the converter to length-prefixed units; the track ids are distinct and
  non-zero.
\<close>

theorem stream_frames_wellformed:
  assumes "stream_reachable s"
  shows "(\<forall>k f. Deliver k f \<in> set (wd_events (ms_dispatcher s)) \<longrightarrow> frame_ok (ms_tracks s) f) \<and>
    (\<forall>g \<in> set (wd_heap (ms_dispatcher s)). \<forall>f \<in> set (sg_pending g). frame_ok (ms_tracks s) f) \<and>
    distinct (map mt_id (ms_tracks s)) \<and> 0 \<notin> set (map mt_id (ms_tracks s))"
  using stream_inv_reachable [OF assms] by (simp add: stream_inv_def all_frames_def)

definition sample_track :: media_track where
  "sample_track = \<lparr>mt_id = 1, mt_kind = Video, mt_codec = H264, mt_clock_rate = 90000,
     mt_channel_count = 0, mt_codec_config = []\<rparr>"

definition sample_frame :: media_frame where
  "sample_frame = \<lparr>mf_track = 1, mf_dts_ns = 0, mf_pts_ns = 0, mf_key_frame = True,
     mf_payload = Some [0, 0, 0, 1, 101], mf_length_prefixed = False\<rparr>"

definition sample_stream :: media_stream where
  "sample_stream = publish (\<lambda>_. True) sample_frame (add_sink (Some (5, 0))
     (snd (set_tracks [sample_track] (new_media_stream ''cam'' 0))))"

lemma sample_stream_reachable: "stream_reachable sample_stream"
  unfolding sample_stream_def by (intro str_publish str_add str_tracks str_new)

lemma sample_stream_events:
  "wd_events (ms_dispatcher sample_stream) = [Deliver 5 (sample_frame\<lparr>mf_length_prefixed := True\<rparr>)]"
  by (simp add: sample_stream_def publish_def set_tracks_cases add_sink_def new_media_stream_def
      sample_track_def sample_frame_def new_dispatcher_def dispatcher_add_def new_sink_group_def
      dispatcher_publish_def call_group_def snapshot_sinks_def Let_def)

theorem stream_frames_wellformed_witness:
  "frame_ok (ms_tracks sample_stream) (sample_frame\<lparr>mf_length_prefixed := True\<rparr>)"
  using stream_frames_wellformed [OF sample_stream_reachable] by (simp add: sample_stream_events)

text \<open>
  Tracks are set exactly once: the call succeeds if and only if the stream has not ended
  and has no tracks yet, and the new tracks are non-empty with distinct, non-zero ids; in
  every other case the stream is unchanged.
\<close>

lemma set_tracks_once:
  "set_tracks ts s =
     (if \<not> ms_ended s \<and> ms_tracks s = [] \<and> ts \<noteq> [] \<and> distinct (map mt_id ts) \<and>
         0 \<notin> set (map mt_id ts)
      then (True, s\<lparr>ms_tracks := ts\<rparr>) else (False, s))"
  by (rule set_tracks_cases)

text \<open>
  C15: an ended stream stays silent: it has no sinks left to publish to, frames and further
  ends change nothing, and a sink that arrives late is told the end and never attached.
\<close>

theorem ended_stream_is_silent:
  assumes "stream_reachable s" "ms_ended s"
  shows "wd_sink_groups (ms_dispatcher s) = [] \<and> \<not> has_sinks live s \<and>
    publish live f s = s \<and> stream_end live s = s \<and> set_tracks ts s = (False, s) \<and>
    add_sink (Some (k, w)) s = s\<lparr>ms_posted_ends := ms_posted_ends s @ [k]\<rparr>"
  using stream_inv_reachable [OF assms(1)] assms(2)
  by (simp add: stream_inv_def has_sinks_def has_live_sinks_def publish_def stream_end_def
      set_tracks_def add_sink_def)

theorem ended_stream_is_silent_witness:
  "publish (\<lambda>_. True) sample_frame (stream_end (\<lambda>_. True) sample_stream) = stream_end (\<lambda>_. True) sample_stream"
  using ended_stream_is_silent [OF str_end [OF sample_stream_reachable, of "\<lambda>_. True"]]
  by (simp add: stream_end_def)

section \<open>The directory of streams\<close>

type_synonym stream_ref = nat
type_synonym stream_registry = "(string, stream_ref) smap"

definition registry_add ::
  "(stream_ref \<times> media_stream) option \<Rightarrow> stream_registry \<Rightarrow> bool \<times> stream_registry" where
  "registry_add stream r =
     (case stream of None \<Rightarrow> (False, r)
      | Some (ref, s) \<Rightarrow>
          if ms_stream_id s = [] \<or> ms_tracks s = [] then (False, r)
          else let (r', inserted) = smap_emplace (ms_stream_id s) ref r in (inserted, r'))"

definition registry_remove :: "stream_ref \<times> media_stream \<Rightarrow> stream_registry \<Rightarrow> stream_registry" where
  "registry_remove expected r =
     (if map_of r (ms_stream_id (snd expected)) \<noteq> Some (fst expected) then r
      else smap_erase (ms_stream_id (snd expected)) r)"

definition registry_find :: "string \<Rightarrow> stream_registry \<Rightarrow> stream_ref option" where
  "registry_find stream_id r = map_of r stream_id"

text \<open>
  C22: the stream directory never replaces a stream under its name and removes by identity: a
  stream is added exactly when it is named, has tracks and the name is free; removing it
  restores every lookup, and a stream that does not hold the name removes nothing.
\<close>

theorem stream_registry_laws:
  fixes ref :: stream_ref and s :: media_stream
  assumes "smap_ok r"
  defines "added \<equiv> fst (registry_add (Some (ref, s)) r)" and "r' \<equiv> snd (registry_add (Some (ref, s)) r)"
  shows "(added \<longleftrightarrow> ms_stream_id s \<noteq> [] \<and> ms_tracks s \<noteq> [] \<and> registry_find (ms_stream_id s) r = None) \<and>
    registry_find k r' = (if added \<and> k = ms_stream_id s then Some ref else registry_find k r) \<and>
    smap_ok r' \<and>
    (added \<longrightarrow> registry_find k (registry_remove (ref, s) r') = registry_find k r) \<and>
    (registry_find (ms_stream_id s) r \<noteq> Some ref \<longrightarrow> registry_remove (ref, s) r = r) \<and>
    smap_ok (registry_remove (ref, s) r)"
proof -
  have ok': "smap_ok r'"
    using assms(1) smap_ok_emplace [OF assms(1)] by (simp add: r'_def registry_add_def split_beta Let_def)
  have "registry_find k (registry_remove (ref, s) r') = registry_find k r" if "added"
  proof -
    have "map_of r' = (map_of r)(ms_stream_id s \<mapsto> ref)" "map_of r (ms_stream_id s) = None"
      using that
      by (auto simp: added_def r'_def registry_add_def smap_emplace_find smap_emplace_inserted split_beta Let_def
          split: if_splits)
    then show ?thesis
      by (simp add: registry_remove_def registry_find_def map_of_smap_erase [OF ok'])
  qed
  with ok' assms(1) show ?thesis
    by (auto simp: added_def r'_def registry_add_def registry_find_def registry_remove_def
        smap_emplace_find smap_emplace_inserted smap_ok_erase split_beta Let_def)
qed

theorem stream_registry_laws_witness:
  "registry_add (Some (3, sample_stream)) [] = (True, [(''cam'', 3)]) \<and>
   registry_find ''cam'' (registry_remove (4, sample_stream) [(''cam'', 3)]) = Some 3"
proof -
  have s: "ms_stream_id sample_stream = ''cam''" "ms_tracks sample_stream = [sample_track]"
    by (simp_all add: sample_stream_def publish_def set_tracks_cases add_sink_def new_media_stream_def
        sample_track_def sample_frame_def Let_def)
  have "registry_remove (4, sample_stream) [(''cam'', 3)] = [(''cam'', 3)]"
    using stream_registry_laws [of "[(''cam'', 3)]" 4 sample_stream] by (simp add: s registry_find_def)
  then show ?thesis
    by (simp add: s registry_add_def registry_find_def smap_emplace_def)
qed

end
