(* ===== verification/Session_Registry.thy ===== *)
theory Session_Registry
  imports Std_Map
begin

text \<open>
  \<open>media/core/session_registry.cpp\<close>: the process-wide directory of sessions, by stream and,
  for senders, by sender. Sessions are named by their address (\<open>session_ref\<close>); an absent
  \<open>shared_ptr\<close> is \<open>None\<close>. Every operation runs under one mutex and is atomic. The
  calls of \<open>shutdown\<close> that \<open>shutdown_all\<close> makes are returned as a list.

  The abstract view \<open>directory\<close> is what clients reason with: two partial functions and the
  stop flag. Every operation refines its abstract counterpart.
\<close>

type_synonym session_ref = nat

record session_entry =
  se_receiver :: "session_ref option"
  se_sender_sessions :: "(string, session_ref) smap"

record session_registry =
  sr_sessions :: "(string, session_entry) smap"
  sr_stopping :: bool

definition new_session_registry :: session_registry where
  "new_session_registry = \<lparr>sr_sessions = [], sr_stopping = False\<rparr>"

definition entry_empty :: "session_entry \<Rightarrow> bool" where
  "entry_empty e \<longleftrightarrow> se_receiver e = None \<and> se_sender_sessions e = []"

definition new_entry :: session_entry where
  "new_entry = \<lparr>se_receiver = None, se_sender_sessions = []\<rparr>"

text \<open>\<open>try_emplace(stream_id).first->second\<close> after the call, in the map that holds it.\<close>

definition entry_of :: "string \<Rightarrow> session_registry \<Rightarrow> session_entry" where
  "entry_of stream_id r = (case map_of (sr_sessions r) stream_id of Some e \<Rightarrow> e | None \<Rightarrow> new_entry)"

definition put_entry :: "string \<Rightarrow> session_entry \<Rightarrow> session_registry \<Rightarrow> session_registry" where
  "put_entry stream_id e r = r\<lparr>sr_sessions := smap_put stream_id e (sr_sessions r)\<rparr>"

text \<open>The tail of the removing operations: store the entry, erased if it became empty.\<close>

definition put_or_erase :: "string \<Rightarrow> session_entry \<Rightarrow> session_registry \<Rightarrow> session_registry" where
  "put_or_erase stream_id e r =
     (if entry_empty e then r\<lparr>sr_sessions := smap_erase stream_id (sr_sessions r)\<rparr>
      else put_entry stream_id e r)"

definition add_receiver_session ::
  "string \<Rightarrow> session_ref \<Rightarrow> session_registry \<Rightarrow> bool \<times> session_registry" where
  "add_receiver_session stream_id s r =
     (if sr_stopping r then (False, r)
      else let e = entry_of stream_id r
           in if se_receiver e \<noteq> None then (False, put_entry stream_id e r)
              else (True, put_entry stream_id (e\<lparr>se_receiver := Some s\<rparr>) r))"

definition take_receiver_session :: "string \<Rightarrow> session_registry \<Rightarrow> session_ref option \<times> session_registry" where
  "take_receiver_session stream_id r =
     (case map_of (sr_sessions r) stream_id of
        None \<Rightarrow> (None, r)
      | Some e \<Rightarrow> (case se_receiver e of None \<Rightarrow> (None, r)
          | Some s \<Rightarrow> (Some s, put_or_erase stream_id (e\<lparr>se_receiver := None\<rparr>) r)))"

definition remove_receiver_session :: "string \<Rightarrow> session_ref \<Rightarrow> session_registry \<Rightarrow> session_registry" where
  "remove_receiver_session stream_id expected r =
     (case map_of (sr_sessions r) stream_id of
        None \<Rightarrow> r
      | Some e \<Rightarrow> if se_receiver e \<noteq> Some expected then r
          else put_or_erase stream_id (e\<lparr>se_receiver := None\<rparr>) r)"

definition find_receiver_session :: "string \<Rightarrow> session_registry \<Rightarrow> session_ref option" where
  "find_receiver_session stream_id r =
     (case map_of (sr_sessions r) stream_id of None \<Rightarrow> None | Some e \<Rightarrow> se_receiver e)"

definition receivers :: "session_registry \<Rightarrow> string list" where
  "receivers r = map fst (filter (\<lambda>(k, e). se_receiver e \<noteq> None) (sr_sessions r))"

definition add_sender_session ::
  "string \<Rightarrow> string \<Rightarrow> session_ref \<Rightarrow> session_registry \<Rightarrow> bool \<times> session_registry" where
  "add_sender_session stream_id sender_id s r =
     (if sr_stopping r then (False, r)
      else let e = entry_of stream_id r;
               (senders, inserted) = smap_emplace sender_id s (se_sender_sessions e)
           in (inserted, put_entry stream_id (e\<lparr>se_sender_sessions := senders\<rparr>) r))"

definition take_sender_session ::
  "string \<Rightarrow> string \<Rightarrow> session_registry \<Rightarrow> session_ref option \<times> session_registry" where
  "take_sender_session stream_id sender_id r =
     (case map_of (sr_sessions r) stream_id of
        None \<Rightarrow> (None, r)
      | Some e \<Rightarrow> (case map_of (se_sender_sessions e) sender_id of None \<Rightarrow> (None, r)
          | Some s \<Rightarrow> (Some s, put_or_erase stream_id
              (e\<lparr>se_sender_sessions := smap_erase sender_id (se_sender_sessions e)\<rparr>) r)))"

definition find_sender_session :: "string \<Rightarrow> string \<Rightarrow> session_registry \<Rightarrow> session_ref option" where
  "find_sender_session stream_id sender_id r =
     (case map_of (sr_sessions r) stream_id of None \<Rightarrow> None
      | Some e \<Rightarrow> map_of (se_sender_sessions e) sender_id)"

definition remove_sender_session ::
  "string \<Rightarrow> string \<Rightarrow> session_ref \<Rightarrow> session_registry \<Rightarrow> session_registry" where
  "remove_sender_session stream_id sender_id expected r =
     (case map_of (sr_sessions r) stream_id of
        None \<Rightarrow> r
      | Some e \<Rightarrow> if map_of (se_sender_sessions e) sender_id \<noteq> Some expected then r
          else put_or_erase stream_id
            (e\<lparr>se_sender_sessions := smap_erase sender_id (se_sender_sessions e)\<rparr>) r)"

definition entry_sessions :: "session_entry \<Rightarrow> session_ref list" where
  "entry_sessions e =
     (case se_receiver e of None \<Rightarrow> [] | Some s \<Rightarrow> [s]) @ map snd (se_sender_sessions e)"

definition shutdown_all :: "session_registry \<Rightarrow> session_ref list \<times> session_registry" where
  "shutdown_all r =
     (concat (map (entry_sessions \<circ> snd) (sr_sessions r)), r\<lparr>sr_sessions := [], sr_stopping := True\<rparr>)"

section \<open>The invariant\<close>

definition registry_ok :: "session_registry \<Rightarrow> bool" where
  "registry_ok r \<longleftrightarrow> smap_ok (sr_sessions r) \<and>
     (\<forall>(k, e) \<in> set (sr_sessions r). \<not> entry_empty e \<and> smap_ok (se_sender_sessions e)) \<and>
     (sr_stopping r \<longrightarrow> sr_sessions r = [])"

lemma registry_ok_entry:
  "registry_ok r \<Longrightarrow> map_of (sr_sessions r) k = Some e \<Longrightarrow> \<not> entry_empty e \<and> smap_ok (se_sender_sessions e)"
  by (auto simp: registry_ok_def dest: map_of_SomeD)

lemma entry_of_ok: "registry_ok r \<Longrightarrow> smap_ok (se_sender_sessions (entry_of k r))"
  by (auto simp: entry_of_def new_entry_def dest: registry_ok_entry split: option.splits)

lemma set_smap_put_sub: "set (smap_put k v m) \<subseteq> insert (k, v) (set m)"
  by (induction k v m rule: smap_put.induct) auto

lemma put_entry_ok:
  assumes "registry_ok r" "\<not> sr_stopping r" "\<not> entry_empty e" "smap_ok (se_sender_sessions e)"
  shows "registry_ok (put_entry k e r)"
  using assms set_smap_put_sub [of k e "sr_sessions r"]
  by (auto simp: registry_ok_def put_entry_def smap_ok_put)

lemma put_or_erase_ok:
  assumes "registry_ok r" "map_of (sr_sessions r) k = Some e0" "smap_ok (se_sender_sessions e)"
  shows "registry_ok (put_or_erase k e r)"
proof -
  have "\<not> sr_stopping r" using assms(1,2) by (auto simp: registry_ok_def)
  then show ?thesis
    using assms put_entry_ok [of r e k] set_smap_erase [of k "sr_sessions r"]
    by (auto simp: put_or_erase_def registry_ok_def smap_ok_erase)
qed

lemma add_receiver_ok: "registry_ok r \<Longrightarrow> registry_ok (snd (add_receiver_session k s r))"
  unfolding add_receiver_session_def Let_def
  by (auto intro!: put_entry_ok simp: entry_of_ok entry_empty_def)

lemma add_sender_ok:
  assumes "registry_ok r"
  shows "registry_ok (snd (add_sender_session k s x r))"
proof (cases "sr_stopping r")
  case False
  let ?e = "entry_of k r" and ?m = "fst (smap_emplace s x (se_sender_sessions (entry_of k r)))"
  have "map_of ?m s \<noteq> None" by (auto simp: smap_emplace_find)
  then have "?m \<noteq> []" by auto
  then have "registry_ok (put_entry k (?e\<lparr>se_sender_sessions := ?m\<rparr>) r)"
    using assms False by (intro put_entry_ok) (auto simp: entry_empty_def smap_ok_emplace entry_of_ok)
  then show ?thesis using False by (simp add: add_sender_session_def split_beta Let_def)
qed (use assms in \<open>simp add: add_sender_session_def\<close>)

lemma removing_ok:
  assumes "registry_ok r"
  shows "registry_ok (snd (take_receiver_session k r))" "registry_ok (remove_receiver_session k x r)"
    and "registry_ok (snd (take_sender_session k s r))" "registry_ok (remove_sender_session k s x r)"
  using assms put_or_erase_ok [OF assms] registry_ok_entry [OF assms]
  by (auto simp: take_receiver_session_def remove_receiver_session_def take_sender_session_def
      remove_sender_session_def smap_ok_erase split: option.splits)

lemma shutdown_all_ok: "registry_ok (snd (shutdown_all r))"
  by (simp add: shutdown_all_def registry_ok_def)

section \<open>The abstract directory\<close>

record directory =
  dir_receiver :: "string \<rightharpoonup> session_ref"
  dir_sender :: "string \<times> string \<rightharpoonup> session_ref"
  dir_stopping :: bool

definition directory_of :: "session_registry \<Rightarrow> directory" where
  "directory_of r =
     \<lparr>dir_receiver = (\<lambda>k. find_receiver_session k r),
      dir_sender = (\<lambda>(k, s). find_sender_session k s r), dir_stopping = sr_stopping r\<rparr>"

lemma entry_of_put_entry: "entry_of k' (put_entry k e r) = (if k' = k then e else entry_of k' r)"
  by (simp add: entry_of_def put_entry_def map_of_smap_put)

lemma map_of_put_or_erase:
  assumes "registry_ok r"
  shows "map_of (sr_sessions (put_or_erase k e r)) k' =
    (if k' = k then (if entry_empty e then None else Some e) else map_of (sr_sessions r) k')"
  using assms
  by (auto simp: registry_ok_def put_or_erase_def put_entry_def map_of_smap_erase map_of_smap_put)

lemma find_entry_of:
  "find_receiver_session k r = se_receiver (entry_of k r)"
  "find_sender_session k s r = map_of (se_sender_sessions (entry_of k r)) s"
  by (auto simp: find_receiver_session_def find_sender_session_def entry_of_def new_entry_def
      split: option.splits)

lemma stopping_simps [simp]:
  "sr_stopping (put_entry k e r) = sr_stopping r" "sr_stopping (put_or_erase k e r) = sr_stopping r"
  by (simp_all add: put_entry_def put_or_erase_def)

lemma stopping_ops:
  "sr_stopping (snd (add_receiver_session k s r)) = sr_stopping r"
  "sr_stopping (snd (take_receiver_session k r)) = sr_stopping r"
  "sr_stopping (remove_receiver_session k s r) = sr_stopping r"
  "sr_stopping (snd (add_sender_session k x s r)) = sr_stopping r"
  "sr_stopping (snd (take_sender_session k x r)) = sr_stopping r"
  "sr_stopping (remove_sender_session k x s r) = sr_stopping r"
  by (simp_all add: add_receiver_session_def take_receiver_session_def remove_receiver_session_def
      add_sender_session_def take_sender_session_def remove_sender_session_def split_beta Let_def
      split: option.split)

text \<open>One kind of slot (receivers by stream, senders by stream and sender) as clients see it.\<close>

locale session_slots =
  fixes add :: "'k \<Rightarrow> session_ref \<Rightarrow> 'r \<Rightarrow> bool \<times> 'r"
    and take :: "'k \<Rightarrow> 'r \<Rightarrow> session_ref option \<times> 'r"
    and remove :: "'k \<Rightarrow> session_ref \<Rightarrow> 'r \<Rightarrow> 'r"
    and find :: "'r \<Rightarrow> 'k \<rightharpoonup> session_ref"
    and stopped :: "'r \<Rightarrow> bool"
    and ok :: "'r \<Rightarrow> bool"
  assumes add_iff: "ok r \<Longrightarrow> fst (add k s r) \<longleftrightarrow> \<not> stopped r \<and> find r k = None"
    and find_add: "ok r \<Longrightarrow> find (snd (add k s r)) = (if fst (add k s r) then (find r)(k \<mapsto> s) else find r)"
    and take_result: "ok r \<Longrightarrow> fst (take k r) = find r k"
    and find_take: "ok r \<Longrightarrow> find (snd (take k r)) = (find r)(k := None)"
    and find_remove: "ok r \<Longrightarrow> find (remove k s r) = (if find r k = Some s then (find r)(k := None) else find r)"
    and add_ok: "ok r \<Longrightarrow> ok (snd (add k s r))"
    and take_ok: "ok r \<Longrightarrow> ok (snd (take k r))"
    and remove_ok: "ok r \<Longrightarrow> ok (remove k s r)"
    and add_stopped: "stopped (snd (add k s r)) = stopped r"
    and take_stopped: "stopped (snd (take k r)) = stopped r"
    and remove_stopped: "stopped (remove k s r) = stopped r"
begin

text \<open>A slot in use is not overwritten, and one that was taken can be used again.\<close>

lemma add_used: "ok r \<Longrightarrow> find r k = Some s \<Longrightarrow> \<not> fst (add k s' r) \<and> find (snd (add k s' r)) k = Some s"
  by (simp add: add_iff find_add)

lemma add_after_take: "ok r \<Longrightarrow> \<not> stopped r \<Longrightarrow> fst (add k s (snd (take k r)))"
  by (simp add: add_iff take_ok take_stopped find_take)

text \<open>
  A session that lost its slot cannot remove its successor: removal goes by identity, so the
  late clean-up of an old session is harmless.
\<close>

lemma late_remove:
  assumes "ok r" "\<not> stopped r" "find r k = Some old" "old \<noteq> new"
  shows "find (remove k old (snd (add k new (snd (take k r))))) k = Some new"
  using assms add_after_take [of r k new]
  by (simp add: find_remove find_add add_ok take_ok)

lemma add_remove:
  assumes "ok r" "\<not> stopped r" "find r k = None"
  shows "find (remove k s (snd (add k s r))) = find r"
  using assms by (auto simp: find_remove find_add add_iff add_ok)

end

interpretation receiver_slots: session_slots add_receiver_session take_receiver_session
  remove_receiver_session "\<lambda>r k. find_receiver_session k r" sr_stopping registry_ok
proof
  fix r k s
  assume ok: "registry_ok r"
  show "fst (add_receiver_session k s r) \<longleftrightarrow> \<not> sr_stopping r \<and> find_receiver_session k r = None"
    by (auto simp: add_receiver_session_def find_entry_of Let_def)
  show "(\<lambda>k'. find_receiver_session k' (snd (add_receiver_session k s r))) =
      (if fst (add_receiver_session k s r) then (\<lambda>k. find_receiver_session k r)(k \<mapsto> s)
       else (\<lambda>k. find_receiver_session k r))"
    by (auto simp: add_receiver_session_def entry_of_put_entry find_entry_of fun_eq_iff Let_def)
  show "fst (take_receiver_session k r) = find_receiver_session k r"
    by (auto simp: take_receiver_session_def find_receiver_session_def split: option.splits)
  show "(\<lambda>k'. find_receiver_session k' (snd (take_receiver_session k r))) =
      (\<lambda>k. find_receiver_session k r)(k := None)"
    by (auto simp: take_receiver_session_def map_of_put_or_erase [OF ok] fun_eq_iff entry_empty_def
        find_receiver_session_def split: option.splits)
  show "(\<lambda>k'. find_receiver_session k' (remove_receiver_session k s r)) =
      (if find_receiver_session k r = Some s then (\<lambda>k. find_receiver_session k r)(k := None)
       else (\<lambda>k. find_receiver_session k r))"
    by (auto simp: remove_receiver_session_def map_of_put_or_erase [OF ok] fun_eq_iff entry_empty_def
        find_receiver_session_def split: option.splits)
qed (simp_all add: add_receiver_ok removing_ok stopping_ops)

interpretation sender_slots: session_slots "\<lambda>(k, s). add_sender_session k s"
  "\<lambda>(k, s). take_sender_session k s" "\<lambda>(k, s). remove_sender_session k s"
  "\<lambda>r (k, s). find_sender_session k s r" sr_stopping registry_ok
proof
  fix r x and ks :: "string \<times> string"
  assume ok: "registry_ok r"
  obtain k s where ks: "ks = (k, s)" by (cases ks)
  have erase: "map_of (smap_erase s (se_sender_sessions e)) = (map_of (se_sender_sessions e))(s := None)"
    if "map_of (sr_sessions r) k = Some e" for e
    using registry_ok_entry [OF ok that] by (simp add: map_of_smap_erase)
  have gone: "map_of (se_sender_sessions e) b = None"
    if "map_of (sr_sessions r) k = Some e" "smap_erase s (se_sender_sessions e) = []" "b \<noteq> s" for e b
    using fun_cong [OF erase [OF that(1)], of b] that(2,3) by simp
  show "fst ((case ks of (k, s) \<Rightarrow> add_sender_session k s) x r) \<longleftrightarrow>
      \<not> sr_stopping r \<and> (case ks of (k, s) \<Rightarrow> find_sender_session k s r) = None"
    by (auto simp: ks add_sender_session_def find_entry_of smap_emplace_inserted split_beta Let_def)
  show "(\<lambda>(k', s'). find_sender_session k' s' (snd ((case ks of (k, s) \<Rightarrow> add_sender_session k s) x r))) =
      (if fst ((case ks of (k, s) \<Rightarrow> add_sender_session k s) x r)
       then (\<lambda>(k, s). find_sender_session k s r)(ks \<mapsto> x) else (\<lambda>(k, s). find_sender_session k s r))"
    by (auto simp: ks add_sender_session_def entry_of_put_entry find_entry_of smap_emplace_find
        smap_emplace_inserted fun_eq_iff split_beta Let_def)
  show "fst ((case ks of (k, s) \<Rightarrow> take_sender_session k s) r) = (case ks of (k, s) \<Rightarrow> find_sender_session k s r)"
    by (auto simp: ks take_sender_session_def find_sender_session_def split: option.splits)
  show "(\<lambda>(k', s'). find_sender_session k' s' (snd ((case ks of (k, s) \<Rightarrow> take_sender_session k s) r))) =
      (\<lambda>(k, s). find_sender_session k s r)(ks := None)"
    by (auto simp: ks take_sender_session_def map_of_put_or_erase [OF ok] fun_eq_iff entry_empty_def erase gone
        find_sender_session_def split: option.splits)
  show "(\<lambda>(k', s'). find_sender_session k' s' ((case ks of (k, s) \<Rightarrow> remove_sender_session k s) x r)) =
      (if (case ks of (k, s) \<Rightarrow> find_sender_session k s r) = Some x
       then (\<lambda>(k, s). find_sender_session k s r)(ks := None) else (\<lambda>(k, s). find_sender_session k s r))"
    by (auto simp: ks remove_sender_session_def map_of_put_or_erase [OF ok] fun_eq_iff entry_empty_def erase gone
        find_sender_session_def split: option.splits)
qed (simp_all add: add_sender_ok removing_ok stopping_ops split_beta)

section \<open>Refinement\<close>

definition dir_add_receiver :: "string \<Rightarrow> session_ref \<Rightarrow> directory \<Rightarrow> bool \<times> directory" where
  "dir_add_receiver k s d =
     (if dir_stopping d \<or> dir_receiver d k \<noteq> None then (False, d)
      else (True, d\<lparr>dir_receiver := (dir_receiver d)(k \<mapsto> s)\<rparr>))"

definition dir_take_receiver :: "string \<Rightarrow> directory \<Rightarrow> session_ref option \<times> directory" where
  "dir_take_receiver k d = (dir_receiver d k, d\<lparr>dir_receiver := (dir_receiver d)(k := None)\<rparr>)"

definition dir_remove_receiver :: "string \<Rightarrow> session_ref \<Rightarrow> directory \<Rightarrow> directory" where
  "dir_remove_receiver k s d =
     (if dir_receiver d k = Some s then d\<lparr>dir_receiver := (dir_receiver d)(k := None)\<rparr> else d)"

definition dir_add_sender :: "string \<times> string \<Rightarrow> session_ref \<Rightarrow> directory \<Rightarrow> bool \<times> directory" where
  "dir_add_sender ks s d =
     (if dir_stopping d \<or> dir_sender d ks \<noteq> None then (False, d)
      else (True, d\<lparr>dir_sender := (dir_sender d)(ks \<mapsto> s)\<rparr>))"

definition dir_take_sender :: "string \<times> string \<Rightarrow> directory \<Rightarrow> session_ref option \<times> directory" where
  "dir_take_sender ks d = (dir_sender d ks, d\<lparr>dir_sender := (dir_sender d)(ks := None)\<rparr>)"

definition dir_remove_sender :: "string \<times> string \<Rightarrow> session_ref \<Rightarrow> directory \<Rightarrow> directory" where
  "dir_remove_sender ks s d =
     (if dir_sender d ks = Some s then d\<lparr>dir_sender := (dir_sender d)(ks := None)\<rparr> else d)"

text \<open>Operations on receivers leave the senders alone, and the other way round.\<close>

lemma receivers_leave_senders:
  assumes "registry_ok r"
  shows "find_sender_session k' s' (snd (add_receiver_session k x r)) = find_sender_session k' s' r"
    and "find_sender_session k' s' (snd (take_receiver_session k r)) = find_sender_session k' s' r"
    and "find_sender_session k' s' (remove_receiver_session k x r) = find_sender_session k' s' r"
  by (simp add: add_receiver_session_def find_entry_of entry_of_put_entry Let_def)
    (auto simp: take_receiver_session_def remove_receiver_session_def find_sender_session_def
      map_of_put_or_erase [OF assms] entry_empty_def split: option.splits)

lemma senders_leave_receivers:
  assumes "registry_ok r"
  shows "find_receiver_session k' (snd (add_sender_session k s x r)) = find_receiver_session k' r"
    and "find_receiver_session k' (snd (take_sender_session k s r)) = find_receiver_session k' r"
    and "find_receiver_session k' (remove_sender_session k s x r) = find_receiver_session k' r"
  by (simp add: add_sender_session_def find_entry_of entry_of_put_entry split_beta Let_def)
    (auto simp: take_sender_session_def remove_sender_session_def find_receiver_session_def
      map_of_put_or_erase [OF assms] entry_empty_def split: option.splits)

lemma directory_eqI:
  "(\<And>k. find_receiver_session k r = dir_receiver d k) \<Longrightarrow>
   (\<And>k s. find_sender_session k s r = dir_sender d (k, s)) \<Longrightarrow> sr_stopping r = dir_stopping d \<Longrightarrow>
   directory_of r = d"
  by (cases d) (auto simp: directory_of_def fun_eq_iff)

lemmas directory_ops = dir_add_receiver_def dir_take_receiver_def dir_remove_receiver_def
  dir_add_sender_def dir_take_sender_def dir_remove_sender_def

text \<open>
  C23: the session registry refines the abstract directory of receivers and senders: every
  operation returns what the directory operation returns and its new state stands for the
  directory's new state, and none leaves an empty entry behind.
\<close>

theorem registry_refines_directory:
  assumes "registry_ok r"
  shows "map_prod id directory_of (add_receiver_session k x r) = dir_add_receiver k x (directory_of r) \<and>
    map_prod id directory_of (take_receiver_session k r) = dir_take_receiver k (directory_of r) \<and>
    directory_of (remove_receiver_session k x r) = dir_remove_receiver k x (directory_of r) \<and>
    map_prod id directory_of (add_sender_session k s x r) = dir_add_sender (k, s) x (directory_of r) \<and>
    map_prod id directory_of (take_sender_session k s r) = dir_take_sender (k, s) (directory_of r) \<and>
    directory_of (remove_sender_session k s x r) = dir_remove_sender (k, s) x (directory_of r) \<and>
    registry_ok (snd (add_receiver_session k x r)) \<and> registry_ok (snd (take_receiver_session k r)) \<and>
    registry_ok (remove_receiver_session k x r) \<and> registry_ok (snd (add_sender_session k s x r)) \<and>
    registry_ok (snd (take_sender_session k s r)) \<and> registry_ok (remove_sender_session k s x r)"
proof -
  note R = receiver_slots.add_iff [OF assms] receiver_slots.take_result [OF assms]
    fun_cong [OF receiver_slots.find_add [OF assms]] fun_cong [OF receiver_slots.find_take [OF assms]]
    fun_cong [OF receiver_slots.find_remove [OF assms]]
  note S = sender_slots.add_iff [OF assms, of "(k, s)", simplified]
    sender_slots.take_result [OF assms, of "(k, s)", simplified]
    fun_cong [OF sender_slots.find_add [OF assms, of "(k, s)"], where x = "(a, b)" for a b, simplified]
    fun_cong [OF sender_slots.find_take [OF assms, of "(k, s)"], where x = "(a, b)" for a b, simplified]
    fun_cong [OF sender_slots.find_remove [OF assms, of "(k, s)"], where x = "(a, b)" for a b, simplified]
  note others = receivers_leave_senders [OF assms] senders_leave_receivers [OF assms] stopping_ops
  have "directory_of (snd (add_receiver_session k x r)) = snd (dir_add_receiver k x (directory_of r))"
    "directory_of (snd (take_receiver_session k r)) = snd (dir_take_receiver k (directory_of r))"
    "directory_of (remove_receiver_session k x r) = dir_remove_receiver k x (directory_of r)"
    by (rule directory_eqI; simp add: directory_ops directory_of_def R others)+
  moreover have "directory_of (snd (add_sender_session k s x r)) = snd (dir_add_sender (k, s) x (directory_of r))"
    "directory_of (snd (take_sender_session k s r)) = snd (dir_take_sender (k, s) (directory_of r))"
    "directory_of (remove_sender_session k s x r) = dir_remove_sender (k, s) x (directory_of r)"
    by (rule directory_eqI; simp add: directory_ops directory_of_def S others)+
  moreover have "fst (add_receiver_session k x r) = fst (dir_add_receiver k x (directory_of r))"
    "fst (take_receiver_session k r) = fst (dir_take_receiver k (directory_of r))"
    "fst (add_sender_session k s x r) = fst (dir_add_sender (k, s) x (directory_of r))"
    "fst (take_sender_session k s r) = fst (dir_take_sender (k, s) (directory_of r))"
    by (simp_all add: directory_ops directory_of_def R S)
  ultimately show ?thesis
    by (simp add: prod_eq_iff add_receiver_ok add_sender_ok removing_ok assms)
qed

definition registry_sample :: session_registry where
  "registry_sample = snd (add_sender_session ''cam'' ''s1'' 8 (snd (add_receiver_session ''cam'' 7
     new_session_registry)))"

lemma registry_sample_ok: "registry_ok registry_sample"
  unfolding registry_sample_def
  by (intro add_sender_ok add_receiver_ok) (simp add: new_session_registry_def registry_ok_def)

lemma registry_sample_eq:
  "registry_sample =
     \<lparr>sr_sessions = [(''cam'', \<lparr>se_receiver = Some 7, se_sender_sessions = [(''s1'', 8)]\<rparr>)],
      sr_stopping = False\<rparr>"
  by (simp add: registry_sample_def add_sender_session_def add_receiver_session_def
      new_session_registry_def entry_of_def new_entry_def put_entry_def smap_emplace_def Let_def)

theorem registry_refines_directory_witness:
  "fst (add_receiver_session ''cam'' 9 registry_sample) = False \<and>
   fst (take_sender_session ''cam'' ''s1'' registry_sample) = Some 8 \<and>
   registry_ok (snd (take_sender_session ''cam'' ''s1'' registry_sample))"
  using registry_refines_directory [OF registry_sample_ok, of "''cam''" 9 "''s1''"]
  by (simp add: prod_eq_iff directory_ops directory_of_def find_receiver_session_def
      find_sender_session_def registry_sample_eq)

section \<open>Shutting everything down\<close>

text \<open>The occupied slots in the order the loops of \<open>shutdown_all\<close> visit them.\<close>

definition entry_slots :: "string \<Rightarrow> session_entry \<Rightarrow> (string \<times> string option) list" where
  "entry_slots k e =
     (if se_receiver e = None then [] else [(k, None)]) @
     map (\<lambda>s. (k, Some s)) (map fst (se_sender_sessions e))"

definition occupied_slots :: "session_registry \<Rightarrow> (string \<times> string option) list" where
  "occupied_slots r = concat (map (\<lambda>(k, e). entry_slots k e) (sr_sessions r))"

lemma mem_entry_slots:
  "slot \<in> set (entry_slots k e) \<longleftrightarrow> fst slot = k \<and>
     (case snd slot of None \<Rightarrow> se_receiver e \<noteq> None | Some s \<Rightarrow> s \<in> fst ` set (se_sender_sessions e))"
  by (cases slot) (auto simp: entry_slots_def split: option.splits)

definition slot_session :: "session_registry \<Rightarrow> string \<times> string option \<Rightarrow> session_ref option" where
  "slot_session r slot =
     (case slot of (k, None) \<Rightarrow> find_receiver_session k r | (k, Some s) \<Rightarrow> find_sender_session k s r)"

lemma distinct_concat_keys:
  assumes "distinct (map fst m)" "\<And>k e. (k, e) \<in> set m \<Longrightarrow> distinct (f k e) \<and> fst ` set (f k e) \<subseteq> {k}"
  shows "distinct (concat (map (\<lambda>(k, e). f k e) m))"
  using assms
proof (induction m)
  case (Cons x m)
  obtain k e where x: "x = (k, e)" by (cases x)
  have "set (f k e) \<inter> set (concat (map (\<lambda>(k, e). f k e) m)) = {}"
  proof (rule ccontr)
    assume "\<not> ?thesis"
    then obtain y k' e' where y: "y \<in> set (f k e)" "(k', e') \<in> set m" "y \<in> set (f k' e')" by auto
    then have "fst y = k" "fst y = k'"
      using Cons.prems(2) [of k e] Cons.prems(2) [of k' e'] x by auto
    with y(2) Cons.prems(1) x show False by (force simp: image_iff)
  qed
  with Cons x show ?case by auto
qed simp

lemma distinct_occupied_slots:
  assumes "registry_ok r"
  shows "distinct (occupied_slots r)"
  unfolding occupied_slots_def
proof (rule distinct_concat_keys)
  show "distinct (map fst (sr_sessions r))"
    using assms by (simp add: registry_ok_def smap_ok_distinct)
  fix k e assume "(k, e) \<in> set (sr_sessions r)"
  then have "smap_ok (se_sender_sessions e)" using assms by (auto simp: registry_ok_def)
  then have "distinct (map fst (se_sender_sessions e))" by (rule smap_ok_distinct)
  then show "distinct (entry_slots k e) \<and> fst ` set (entry_slots k e) \<subseteq> {k}"
    by (auto simp: entry_slots_def distinct_map inj_on_def)
qed

lemma slot_session_entry:
  assumes "registry_ok r" "(k, e) \<in> set (sr_sessions r)"
  shows "slot_session r (k, None) = se_receiver e" "slot_session r (k, Some s) = map_of (se_sender_sessions e) s"
proof -
  have "map_of (sr_sessions r) k = Some e"
    using assms by (auto simp: registry_ok_def smap_ok_distinct)
  then show "slot_session r (k, None) = se_receiver e"
    and "slot_session r (k, Some s) = map_of (se_sender_sessions e) s"
    by (simp_all add: slot_session_def find_receiver_session_def find_sender_session_def)
qed

lemma map_occupied_slots:
  assumes "registry_ok r"
  shows "map (the \<circ> slot_session r) (occupied_slots r) = fst (shutdown_all r)"
proof -
  have "map (the \<circ> slot_session r) (entry_slots k e) = entry_sessions e"
    if ke: "(k, e) \<in> set (sr_sessions r)" for k e
  proof -
    have "distinct (map fst (se_sender_sessions e))"
      using assms ke by (auto simp: registry_ok_def intro: smap_ok_distinct)
    then have "map (\<lambda>s. the (map_of (se_sender_sessions e) s)) (map fst (se_sender_sessions e)) =
        map snd (se_sender_sessions e)"
      by auto
    then show ?thesis
      by (auto simp: entry_slots_def entry_sessions_def slot_session_entry [OF assms ke] split: option.splits)
  qed
  then show ?thesis
    unfolding occupied_slots_def shutdown_all_def fst_conv map_concat map_map
    by (intro arg_cong [where f = concat] map_cong) auto
qed

lemma set_occupied_slots:
  assumes "registry_ok r"
  shows "set (occupied_slots r) = {slot. slot_session r slot \<noteq> None}"
proof (rule set_eqI)
  fix slot :: "string \<times> string option"
  obtain k s where slot: "slot = (k, s)" by (cases slot)
  have ok: "smap_ok (sr_sessions r)" using assms by (simp add: registry_ok_def)
  have occ: "slot \<in> set (occupied_slots r) \<longleftrightarrow>
      (\<exists>e. (k, e) \<in> set (sr_sessions r) \<and> slot \<in> set (entry_slots k e))"
    unfolding occupied_slots_def slot by (auto simp: mem_entry_slots)
  show "slot \<in> set (occupied_slots r) \<longleftrightarrow> slot \<in> {slot. slot_session r slot \<noteq> None}"
  proof (cases "map_of (sr_sessions r) k")
    case None
    then have "(k, e) \<notin> set (sr_sessions r)" for e
      by (force simp: map_of_eq_None_iff)
    moreover have "slot_session r slot = None"
      using None slot
      by (cases s) (auto simp: slot_session_def find_receiver_session_def find_sender_session_def)
    ultimately show ?thesis by (simp add: occ)
  next
    case (Some e)
    then have ke: "(k, e) \<in> set (sr_sessions r)" by (rule map_of_SomeD)
    have uniq: "e' = e" if "(k, e') \<in> set (sr_sessions r)" for e'
      using that Some smap_ok_distinct [OF ok] by simp
    have "slot \<in> set (entry_slots k e) \<longleftrightarrow> slot_session r slot \<noteq> None"
      using slot by (cases s) (simp_all add: mem_entry_slots slot_session_entry [OF assms ke] map_of_eq_None_iff)
    then show ?thesis using occ ke uniq by blast
  qed
qed

text \<open>
  C24: shutting down stops every registered session exactly once: the calls of \<open>shutdown\<close> are
  those of the occupied slots, each slot visited once; afterwards the directory is empty
  and stays closed, so no session can register behind the shutdown.
\<close>

theorem shutdown_all_once:
  assumes "registry_ok r"
  defines "r' \<equiv> snd (shutdown_all r)"
  shows "(\<exists>slots. distinct slots \<and> set slots = {slot. slot_session r slot \<noteq> None} \<and>
      map Some (fst (shutdown_all r)) = map (slot_session r) slots) \<and>
    slot_session r' = (\<lambda>_. None) \<and>
    add_receiver_session k x r' = (False, r') \<and> add_sender_session k s x r' = (False, r')"
proof -
  have "map Some (fst (shutdown_all r)) = map (slot_session r) (occupied_slots r)"
    unfolding map_occupied_slots [OF assms(1), symmetric]
    using set_occupied_slots [OF assms(1)] by auto
  moreover have "slot_session r' = (\<lambda>_. None)"
    by (auto simp: r'_def slot_session_def shutdown_all_def find_receiver_session_def
        find_sender_session_def fun_eq_iff split: option.splits)
  moreover have "add_receiver_session k x r' = (False, r')" "add_sender_session k s x r' = (False, r')"
    by (simp_all add: r'_def shutdown_all_def add_receiver_session_def add_sender_session_def)
  ultimately show ?thesis
    using distinct_occupied_slots [OF assms(1)] set_occupied_slots [OF assms(1)] by blast
qed

theorem shutdown_all_once_witness:
  "fst (shutdown_all registry_sample) = [7, 8] \<and>
   add_receiver_session ''x'' 1 (snd (shutdown_all registry_sample)) = (False, snd (shutdown_all registry_sample))"
proof
  show "fst (shutdown_all registry_sample) = [7, 8]"
    by (simp add: registry_sample_eq shutdown_all_def entry_sessions_def)
  show "add_receiver_session ''x'' 1 (snd (shutdown_all registry_sample)) =
      (False, snd (shutdown_all registry_sample))"
    using shutdown_all_once [OF registry_sample_ok, of "''x''" 1 "''s''"] by blast
qed

end
