(* ===== verification/Stun_Message.thy ===== *)
theory Stun_Message
  imports Prelude
begin

text \<open>
  \<open>media/webrtc/stun_message.cpp\<close>: STUN binding requests and responses for ICE. Packets are
  byte lists; \<open>std::string_view\<close> values (user name, password, reason) are their bytes.

  OpenSSL's \<open>HMAC\<close> with SHA-1 and Boost's CRC-32 are the parameters \<open>hmac\<close> (\<open>None\<close> when the
  call fails) and \<open>crc\<close>; nothing is assumed about them. \<open>read_u16\<close> and \<open>read_u32\<close> are
  \<open>be16_at\<close> and \<open>be32_at\<close>, \<open>append_u16\<close> and \<open>append_u32\<close> append \<open>be16_bytes\<close> and
  \<open>be32_bytes\<close> (theory Prelude).
\<close>

section \<open>Constants\<close>

definition stun_header_size :: nat where "stun_header_size = 20"
definition stun_magic_cookie :: u32 where "stun_magic_cookie = 0x2112a442"
definition stun_binding_request_type :: u16 where "stun_binding_request_type = 0x0001"
definition stun_binding_success_response_type :: u16 where "stun_binding_success_response_type = 0x0101"
definition stun_binding_error_response_type :: u16 where "stun_binding_error_response_type = 0x0111"
definition stun_attribute_username :: u16 where "stun_attribute_username = 0x0006"
definition stun_attribute_message_integrity :: u16 where "stun_attribute_message_integrity = 0x0008"
definition stun_attribute_error_code :: u16 where "stun_attribute_error_code = 0x0009"
definition stun_attribute_unknown_attributes :: u16 where "stun_attribute_unknown_attributes = 0x000a"
definition stun_attribute_xor_mapped_address :: u16 where "stun_attribute_xor_mapped_address = 0x0020"
definition stun_attribute_priority :: u16 where "stun_attribute_priority = 0x0024"
definition stun_attribute_use_candidate :: u16 where "stun_attribute_use_candidate = 0x0025"
definition stun_attribute_fingerprint :: u16 where "stun_attribute_fingerprint = 0x8028"
definition stun_attribute_ice_controlled :: u16 where "stun_attribute_ice_controlled = 0x8029"
definition stun_attribute_ice_controlling :: u16 where "stun_attribute_ice_controlling = 0x802a"
definition stun_message_integrity_size :: nat where "stun_message_integrity_size = 20"
definition stun_fingerprint_xor :: u32 where "stun_fingerprint_xor = 0x5354554e"

lemmas stun_types = stun_attribute_username_def stun_attribute_message_integrity_def
  stun_attribute_error_code_def stun_attribute_unknown_attributes_def
  stun_attribute_xor_mapped_address_def stun_attribute_priority_def stun_attribute_use_candidate_def
  stun_attribute_fingerprint_def stun_attribute_ice_controlled_def stun_attribute_ice_controlling_def

section \<open>Building\<close>

definition set_message_length :: "bytes \<Rightarrow> nat \<Rightarrow> bytes" where
  "set_message_length packet body_size =
     (if body_size \<le> 65535
      then packet[2 := be16_bytes (word_of_nat body_size) ! 0, 3 := be16_bytes (word_of_nat body_size) ! 1]
      else packet)"

lemma pad_measure: "n mod 4 \<noteq> 0 \<Longrightarrow> (4 - Suc n mod 4) mod 4 < (4 - n mod 4) mod (4 :: nat)"
proof -
  assume "n mod 4 \<noteq> 0"
  moreover have "n mod 4 < 4" by simp
  ultimately consider "n mod 4 = 1" | "n mod 4 = 2" | "n mod 4 = 3" by linarith
  then show ?thesis by cases (simp_all add: mod_Suc)
qed

function pad_to_4 :: "bytes \<Rightarrow> bytes" where
  "pad_to_4 packet = (if length packet mod 4 \<noteq> 0 then pad_to_4 (packet @ [0]) else packet)"
  by pat_completeness auto
termination
  by (relation "measure (\<lambda>p. (4 - length p mod 4) mod 4)") (simp, use pad_measure in force)

declare pad_to_4.simps [simp del]

definition append_attribute :: "bytes \<Rightarrow> u16 \<Rightarrow> bytes \<Rightarrow> bytes" where
  "append_attribute packet type val =
     pad_to_4 (packet @ be16_bytes type @ be16_bytes (word_of_nat (length val)) @ val)"

definition hmac_sha1 :: "(bytes \<Rightarrow> bytes \<Rightarrow> bytes option) \<Rightarrow> bytes \<Rightarrow> bytes \<Rightarrow> bytes option" where
  "hmac_sha1 hmac password data =
     (if length password > 2147483647 then None
      else case hmac password data of None \<Rightarrow> None
        | Some digest \<Rightarrow> if length digest \<noteq> stun_message_integrity_size then None else Some digest)"

definition fingerprint :: "(bytes \<Rightarrow> u32) \<Rightarrow> bytes \<Rightarrow> u32" where
  "fingerprint crc data = crc data XOR stun_fingerprint_xor"

definition make_header :: "u16 \<Rightarrow> bytes \<Rightarrow> bytes" where
  "make_header type transaction_id =
     be16_bytes type @ be16_bytes 0 @ be32_bytes stun_magic_cookie @ transaction_id"

definition append_integrity_and_fingerprint ::
  "(bytes \<Rightarrow> bytes \<Rightarrow> bytes option) \<Rightarrow> (bytes \<Rightarrow> u32) \<Rightarrow> bytes \<Rightarrow> bytes \<Rightarrow> bytes option" where
  "append_integrity_and_fingerprint hmac crc packet password =
     (let packet1 = set_message_length packet (length packet - stun_header_size + 24)
      in case hmac_sha1 hmac password packet1 of
           None \<Rightarrow> None
         | Some digest \<Rightarrow>
             let packet2 = append_attribute packet1 stun_attribute_message_integrity digest;
                 packet3 = set_message_length packet2 (length packet2 - stun_header_size + 8)
             in Some (append_attribute packet3 stun_attribute_fingerprint
                  (be32_bytes (fingerprint crc packet3))))"

datatype ip_address = V4 bytes | V6 bytes

definition xor_mapped_address :: "ip_address \<Rightarrow> u16 \<Rightarrow> bytes \<Rightarrow> bytes" where
  "xor_mapped_address address port transaction_id =
     (let cookie_bytes = [0x21, 0x12, 0xa4, 0x42];
          port_bytes = be16_bytes (port XOR ucast (drop_bit 16 stun_magic_cookie))
      in case address of
           V4 a \<Rightarrow> [0, 1] @ port_bytes @ map2 (XOR) a cookie_bytes
         | V6 a \<Rightarrow> [0, 2] @ port_bytes @ map2 (XOR) a (cookie_bytes @ transaction_id))"

record stun_binding_request =
  sb_transaction_id :: bytes
  sb_unknown_required_attributes :: "u16 list"
  sb_priority :: bool
  sb_use_candidate :: bool
  sb_ice_controlling :: bool
  sb_ice_controlled :: bool

definition make_stun_binding_success_response ::
  "(bytes \<Rightarrow> bytes \<Rightarrow> bytes option) \<Rightarrow> (bytes \<Rightarrow> u32) \<Rightarrow> stun_binding_request \<Rightarrow> ip_address \<Rightarrow> u16 \<Rightarrow> bytes \<Rightarrow> bytes" where
  "make_stun_binding_success_response hmac crc request address port password =
     (let packet = make_header stun_binding_success_response_type (sb_transaction_id request);
          mapped_address = xor_mapped_address address port (sb_transaction_id request);
          packet1 = append_attribute packet stun_attribute_xor_mapped_address mapped_address
      in case append_integrity_and_fingerprint hmac crc packet1 password of
           None \<Rightarrow> [] | Some packet2 \<Rightarrow> packet2)"

definition make_stun_binding_request ::
  "(bytes \<Rightarrow> bytes \<Rightarrow> bytes option) \<Rightarrow> (bytes \<Rightarrow> u32) \<Rightarrow> bytes \<Rightarrow> bytes \<Rightarrow> bytes \<Rightarrow> u32 \<Rightarrow> u64 \<Rightarrow> bytes" where
  "make_stun_binding_request hmac crc transaction_id username password priority tie_breaker =
     (let p0 = make_header stun_binding_request_type transaction_id;
          p1 = append_attribute p0 stun_attribute_username username;
          p2 = append_attribute p1 stun_attribute_priority (be32_bytes priority);
          p3 = append_attribute p2 stun_attribute_ice_controlling
                 (be32_bytes (ucast (drop_bit 32 tie_breaker)) @ be32_bytes (ucast (tie_breaker AND 0xffffffff)));
          p4 = append_attribute p3 stun_attribute_use_candidate []
      in case append_integrity_and_fingerprint hmac crc p4 password of None \<Rightarrow> [] | Some p \<Rightarrow> p)"

definition make_stun_binding_error_response ::
  "(bytes \<Rightarrow> bytes \<Rightarrow> bytes option) \<Rightarrow> (bytes \<Rightarrow> u32) \<Rightarrow> stun_binding_request \<Rightarrow> u16 \<Rightarrow> bytes \<Rightarrow> u16 list \<Rightarrow> bytes \<Rightarrow> bytes" where
  "make_stun_binding_error_response hmac crc request error_code reason unknown_attributes password =
     (let p0 = make_header stun_binding_error_response_type (sb_transaction_id request);
          error_value = [0, 0, ucast (error_code div 100), ucast (error_code mod 100)] @ reason;
          p1 = append_attribute p0 stun_attribute_error_code error_value;
          p2 = (if unknown_attributes \<noteq> []
                then append_attribute p1 stun_attribute_unknown_attributes
                  (concat (map be16_bytes unknown_attributes))
                else p1)
      in case append_integrity_and_fingerprint hmac crc p2 password of None \<Rightarrow> [] | Some p \<Rightarrow> p)"

section \<open>Reading\<close>

definition is_stun_message :: "bytes \<Rightarrow> bool" where
  "is_stun_message packet \<longleftrightarrow>
     length packet \<ge> stun_header_size \<and> byte_at packet 0 AND 0xc0 = 0 \<and> be32_at packet 4 = stun_magic_cookie"

definition verify_message_integrity ::
  "(bytes \<Rightarrow> bytes \<Rightarrow> bytes option) \<Rightarrow> bytes \<Rightarrow> nat \<Rightarrow> bytes \<Rightarrow> bool" where
  "verify_message_integrity hmac packet attribute_offset password =
     (if attribute_offset < stun_header_size \<or> attribute_offset + 24 > length packet then False
      else let body_size = attribute_offset - stun_header_size + 24
           in if body_size > 65535 then False
              else case hmac_sha1 hmac password (set_message_length (take attribute_offset packet) body_size) of
                     None \<Rightarrow> False
                   | Some digest \<Rightarrow> digest = take (length digest) (drop (attribute_offset + 4) packet))"

definition verify_fingerprint :: "(bytes \<Rightarrow> u32) \<Rightarrow> bytes \<Rightarrow> nat \<Rightarrow> bool" where
  "verify_fingerprint crc packet attribute_offset =
     (if attribute_offset < stun_header_size \<or> attribute_offset + 8 > length packet then False
      else fingerprint crc (take attribute_offset packet) = be32_at packet (attribute_offset + 4))"

record stun_binding_attributes =
  sa_username :: "bytes option"
  sa_message_integrity_offset :: "nat option"
  sa_fingerprint_offset :: "nat option"
  sa_unknown_required_attributes :: "u16 list"
  sa_priority :: bool
  sa_ice_controlling :: bool
  sa_ice_controlled :: bool
  sa_use_candidate :: bool

definition no_attributes :: stun_binding_attributes where
  "no_attributes =
     \<lparr>sa_username = None, sa_message_integrity_offset = None, sa_fingerprint_offset = None,
      sa_unknown_required_attributes = [], sa_priority = False, sa_ice_controlling = False,
      sa_ice_controlled = False, sa_use_candidate = False\<rparr>"

text \<open>The chain of cases of one attribute, \<open>None\<close> when the packet is rejected.\<close>

definition note_attribute ::
  "bytes \<Rightarrow> nat \<Rightarrow> u16 \<Rightarrow> nat \<Rightarrow> stun_binding_attributes \<Rightarrow> stun_binding_attributes option" where
  "note_attribute packet offset type len result =
     (if type = stun_attribute_username then
        if sa_username result \<noteq> None then None
        else Some (result\<lparr>sa_username := Some (take len (drop (offset + 4) packet))\<rparr>)
      else if type = stun_attribute_message_integrity then
        if len \<noteq> stun_message_integrity_size \<or> sa_message_integrity_offset result \<noteq> None then None
        else Some (result\<lparr>sa_message_integrity_offset := Some offset\<rparr>)
      else if type = stun_attribute_priority then
        if len \<noteq> 4 \<or> sa_priority result then None else Some (result\<lparr>sa_priority := True\<rparr>)
      else if type = stun_attribute_use_candidate then
        if len \<noteq> 0 \<or> sa_use_candidate result then None else Some (result\<lparr>sa_use_candidate := True\<rparr>)
      else if type = stun_attribute_fingerprint then
        if len \<noteq> 4 \<or> sa_fingerprint_offset result \<noteq> None then None
        else Some (result\<lparr>sa_fingerprint_offset := Some offset\<rparr>)
      else if type = stun_attribute_ice_controlling then
        if len \<noteq> 8 \<or> sa_ice_controlling result then None else Some (result\<lparr>sa_ice_controlling := True\<rparr>)
      else if type = stun_attribute_ice_controlled then
        if len \<noteq> 8 \<or> sa_ice_controlled result then None else Some (result\<lparr>sa_ice_controlled := True\<rparr>)
      else if type < 0x8000 \<and> sa_message_integrity_offset result = None \<and>
              type \<noteq> stun_attribute_error_code \<and> type \<noteq> stun_attribute_unknown_attributes \<and>
              type \<noteq> stun_attribute_xor_mapped_address
        then Some (result\<lparr>sa_unknown_required_attributes := sa_unknown_required_attributes result @ [type]\<rparr>)
      else Some result)"

definition align4 :: "nat \<Rightarrow> nat" where
  "align4 offset = offset + (4 - offset mod 4) mod 4"

function scan_from :: "bytes \<Rightarrow> nat \<Rightarrow> stun_binding_attributes \<Rightarrow> stun_binding_attributes option" where
  "scan_from packet offset result =
     (if offset + 4 \<le> length packet
      then let type = be16_at packet offset;
               len = unat (be16_at packet (offset + 2));
               next_offset = align4 (offset + 4 + len)
           in if offset + 4 + len > length packet then None
              else if sa_message_integrity_offset result \<noteq> None \<and> type \<noteq> stun_attribute_fingerprint
              then scan_from packet next_offset result
              else case note_attribute packet offset type len result of
                     None \<Rightarrow> None
                   | Some result' \<Rightarrow> scan_from packet next_offset result'
      else if offset \<noteq> length packet then None else Some result)"
  by pat_completeness auto
termination
  by (relation "measure (\<lambda>(packet, offset, result). length packet + 4 - offset)") (auto simp: align4_def)

declare scan_from.simps [simp del]

definition scan_stun_attributes :: "bytes \<Rightarrow> stun_binding_attributes option" where
  "scan_stun_attributes packet = scan_from packet stun_header_size no_attributes"

definition validate_stun_binding_authentication ::
  "(bytes \<Rightarrow> bytes \<Rightarrow> bytes option) \<Rightarrow> (bytes \<Rightarrow> u32) \<Rightarrow> bytes \<Rightarrow> stun_binding_attributes \<Rightarrow> bytes \<Rightarrow> bytes \<Rightarrow> bool" where
  "validate_stun_binding_authentication hmac crc packet attributes expected_username password =
     (case sa_username attributes of None \<Rightarrow> False
      | Some username \<Rightarrow>
          if username \<noteq> expected_username then False
          else case sa_message_integrity_offset attributes of None \<Rightarrow> False
            | Some mi \<Rightarrow>
                if \<not> verify_message_integrity hmac packet mi password then False
                else case sa_fingerprint_offset attributes of None \<Rightarrow> False
                  | Some fp \<Rightarrow> fp + 8 = length packet \<and> verify_fingerprint crc packet fp)"

definition parse_stun_binding_request ::
  "(bytes \<Rightarrow> bytes \<Rightarrow> bytes option) \<Rightarrow> (bytes \<Rightarrow> u32) \<Rightarrow> bytes \<Rightarrow> bytes \<Rightarrow> bytes \<Rightarrow> stun_binding_request option" where
  "parse_stun_binding_request hmac crc packet expected_username password =
     (if \<not> is_stun_message packet then None
      else if be16_at packet 0 \<noteq> stun_binding_request_type then None
      else if unat (be16_at packet 2) \<noteq> length packet - stun_header_size then None
      else case scan_stun_attributes packet of None \<Rightarrow> None
        | Some attributes \<Rightarrow>
            if \<not> validate_stun_binding_authentication hmac crc packet attributes expected_username password
            then None
            else Some
              \<lparr>sb_transaction_id = take 12 (drop 8 packet),
               sb_unknown_required_attributes = sa_unknown_required_attributes attributes,
               sb_priority = sa_priority attributes, sb_use_candidate = sa_use_candidate attributes,
               sb_ice_controlling = sa_ice_controlling attributes,
               sb_ice_controlled = sa_ice_controlled attributes\<rparr>)"

definition parse_stun_binding_success_response ::
  "(bytes \<Rightarrow> bytes \<Rightarrow> bytes option) \<Rightarrow> (bytes \<Rightarrow> u32) \<Rightarrow> bytes \<Rightarrow> bytes \<Rightarrow> bytes option" where
  "parse_stun_binding_success_response hmac crc packet password =
     (if \<not> is_stun_message packet \<or> be16_at packet 0 \<noteq> stun_binding_success_response_type \<or>
         unat (be16_at packet 2) \<noteq> length packet - stun_header_size then None
      else case scan_stun_attributes packet of None \<Rightarrow> None
        | Some attributes \<Rightarrow>
            (case (sa_message_integrity_offset attributes, sa_fingerprint_offset attributes) of
               (Some mi, Some fp) \<Rightarrow>
                 if \<not> verify_message_integrity hmac packet mi password \<or> fp + 8 \<noteq> length packet \<or>
                    \<not> verify_fingerprint crc packet fp then None
                 else Some (take 12 (drop 8 packet))
             | _ \<Rightarrow> None))"

end
