(* ===== verification/Stun_Props.thy ===== *)
theory Stun_Props
  imports Stun_Message
begin

text \<open>
  Properties of the STUN messages: what is built is read back, what is accepted was
  authenticated, and the fields of an accepted request come from the authenticated bytes
  only.
\<close>

section \<open>Packets as a header and a list of attributes\<close>

definition attr_bytes :: "u16 \<Rightarrow> bytes \<Rightarrow> bytes" where
  "attr_bytes type v =
     be16_bytes type @ be16_bytes (word_of_nat (length v)) @ v @ replicate ((4 - length v mod 4) mod 4) 0"

definition header_bytes :: "u16 \<Rightarrow> u16 \<Rightarrow> bytes \<Rightarrow> bytes" where
  "header_bytes type len tid = be16_bytes type @ be16_bytes len @ be32_bytes stun_magic_cookie @ tid"

lemma mod_4_cases:
  obtains (0) "n mod 4 = (0 :: nat)" | (1) "n mod 4 = 1" | (2) "n mod 4 = 2" | (3) "n mod 4 = 3"
proof -
  have "n mod 4 < 4" by simp
  then show thesis using that by linarith
qed

lemma pad_step: "n mod 4 \<noteq> 0 \<Longrightarrow> (4 - n mod 4) mod 4 = Suc ((4 - Suc n mod 4) mod (4 :: nat))"
  by (cases n rule: mod_4_cases) (simp_all add: mod_Suc)

lemma pad_to_4_eq: "pad_to_4 p = p @ replicate ((4 - length p mod 4) mod 4) 0"
proof (induction p rule: pad_to_4.induct)
  case (1 p)
  show ?case
  proof (cases "length p mod 4 = 0")
    case True
    then show ?thesis by (subst pad_to_4.simps) simp
  next
    case False
    then have "pad_to_4 p = (p @ [0]) @ replicate ((4 - length (p @ [0]) mod 4) mod 4) 0"
      using "1.IH" by (subst pad_to_4.simps) simp
    also have "\<dots> = p @ replicate ((4 - length p mod 4) mod 4) 0"
      by (simp only: pad_step [OF False] length_append_singleton replicate_Suc append_assoc append.simps)
    finally show ?thesis .
  qed
qed

lemma pad_add:
  assumes "n mod 4 = 0"
  shows "(4 - (n + m) mod 4) mod 4 = (4 - m mod 4) mod (4 :: nat)"
  using assms by (metis add.left_neutral mod_add_left_eq)

lemma append_attribute_eq:
  assumes "length p mod 4 = 0"
  shows "append_attribute p t v = p @ attr_bytes t v"
proof -
  have "(length p + 4) mod 4 = 0" using assms by presburger
  from pad_add [OF this, of "length v"] show ?thesis
    by (simp add: append_attribute_def pad_to_4_eq attr_bytes_def add.commute add.left_commute)
qed

lemma align_pad: "(m + (4 - m mod 4) mod 4) mod 4 = (0 :: nat)"
  by (cases m rule: mod_4_cases) (simp_all, presburger+)

lemma length_attr_bytes: "length (attr_bytes t v) = 4 + length v + (4 - length v mod 4) mod 4"
  by (simp add: attr_bytes_def)

lemma length_attr_mod [simp]: "length (attr_bytes t v) mod 4 = 0"
  by (simp only: length_attr_bytes add.assoc mod_add_self1 align_pad)

lemma align4_attr:
  assumes "length p mod 4 = 0"
  shows "align4 (length p + 4 + length v) = length p + length (attr_bytes t v)"
proof -
  have "(length p + 4) mod 4 = 0" using assms by presburger
  from pad_add [OF this, of "length v"] show ?thesis
    by (simp add: align4_def length_attr_bytes)
qed

lemma length_header_bytes [simp]: "length tid = 12 \<Longrightarrow> length (header_bytes t l tid) = 20"
  by (simp add: header_bytes_def)

lemma set_length_header:
  assumes "n \<le> 65535"
  shows "set_message_length (header_bytes t l tid @ body) n = header_bytes t (word_of_nat n) tid @ body"
  using assms
  by (simp add: set_message_length_def header_bytes_def be16_bytes_def numeral_2_eq_2 numeral_3_eq_3)

lemma make_header_eq: "make_header t tid = header_bytes t 0 tid"
  by (simp add: make_header_def header_bytes_def)

lemma header_reads:
  assumes "length tid = 12"
  shows "be16_at (header_bytes t l tid @ body) 0 = t" "be16_at (header_bytes t l tid @ body) 2 = l"
    and "be32_at (header_bytes t l tid @ body) 4 = stun_magic_cookie"
    and "take 12 (drop 8 (header_bytes t l tid @ body)) = tid"
  using assms by (simp_all add: header_bytes_def byte_simps)

lemma is_stun_header:
  assumes "length tid = 12" "ucast (drop_bit 8 t) AND (0xc0 :: u8) = 0"
  shows "is_stun_message (header_bytes t l tid @ body)"
  using assms header_reads(3) [OF assms(1), of t l body]
  by (simp add: is_stun_message_def stun_header_size_def)
    (simp add: header_bytes_def be16_bytes_def byte_at_def)

section \<open>Scanning what was built\<close>

lemma attr_reads:
  assumes "length v \<le> 65535"
  shows "be16_at (p @ attr_bytes t v @ rest) (length p) = t"
    and "unat (be16_at (p @ attr_bytes t v @ rest) (length p + 2)) = length v"
    and "take (length v) (drop (length p + 4) (p @ attr_bytes t v @ rest)) = v"
proof -
  have len: "unat (word_of_nat (length v) :: u16) = length v"
    using assms by (simp add: unat_of_nat take_bit_nat_eq_self)
  show "be16_at (p @ attr_bytes t v @ rest) (length p) = t"
    by (simp add: attr_bytes_def byte_simps)
  show "unat (be16_at (p @ attr_bytes t v @ rest) (length p + 2)) = length v"
    by (simp add: attr_bytes_def byte_simps len)
  show "take (length v) (drop (length p + 4) (p @ attr_bytes t v @ rest)) = v"
    by (simp add: attr_bytes_def)
qed

lemma scan_attr:
  assumes "length p mod 4 = 0" "length v \<le> 65535"
  shows "scan_from (p @ attr_bytes t v @ rest) (length p) r =
    (if sa_message_integrity_offset r \<noteq> None \<and> t \<noteq> stun_attribute_fingerprint
     then scan_from (p @ attr_bytes t v @ rest) (length (p @ attr_bytes t v)) r
     else case note_attribute (p @ attr_bytes t v @ rest) (length p) t (length v) r of
            None \<Rightarrow> None
          | Some r' \<Rightarrow> scan_from (p @ attr_bytes t v @ rest) (length (p @ attr_bytes t v)) r')"
proof -
  let ?packet = "p @ attr_bytes t v @ rest"
  have "length p + 4 + length v \<le> length ?packet" by (simp add: length_attr_bytes)
  then show ?thesis
    unfolding scan_from.simps [of ?packet "length p" r] Let_def attr_reads [OF assms(2)]
      align4_attr [OF assms(1), of v t] length_append
    by simp
qed

lemma scan_end: "scan_from packet (length packet) r = Some r"
  by (subst scan_from.simps) simp

text \<open>
  Scanning a run of attributes is folding over them: apart from MESSAGE-INTEGRITY and
  FINGERPRINT, whose offsets are recorded, what is noted does not depend on the position.
\<close>

definition note_value :: "u16 \<Rightarrow> bytes \<Rightarrow> stun_binding_attributes \<Rightarrow> stun_binding_attributes option" where
  "note_value t v r = note_attribute (replicate 4 0 @ v) 0 t (length v) r"

fun note_values :: "(u16 \<times> bytes) list \<Rightarrow> stun_binding_attributes \<Rightarrow> stun_binding_attributes option" where
  "note_values [] r = Some r"
| "note_values ((t, v) # as) r = (case note_value t v r of None \<Rightarrow> None | Some r' \<Rightarrow> note_values as r')"

definition attrs_bytes :: "(u16 \<times> bytes) list \<Rightarrow> bytes" where
  "attrs_bytes as = concat (map (\<lambda>(t, v). attr_bytes t v) as)"

definition plain_attr :: "u16 \<times> bytes \<Rightarrow> bool" where
  "plain_attr a \<longleftrightarrow> fst a \<noteq> stun_attribute_message_integrity \<and> fst a \<noteq> stun_attribute_fingerprint \<and>
     length (snd a) \<le> 65535"

lemma note_attribute_cong:
  assumes "t \<noteq> stun_attribute_message_integrity" "t \<noteq> stun_attribute_fingerprint"
    and "take len (drop (i + 4) p) = take len (drop (j + 4) q)"
  shows "note_attribute p i t len r = note_attribute q j t len r"
  using assms by (simp add: note_attribute_def)

lemma note_attribute_local:
  assumes "plain_attr (t, v)"
  shows "note_attribute (p @ attr_bytes t v @ rest) (length p) t (length v) r = note_value t v r"
proof -
  have "take (length v) (drop (length p + 4) (p @ attr_bytes t v @ rest)) = v"
    using assms by (intro attr_reads(3)) (simp add: plain_attr_def)
  then have "take (length v) (drop (length p + 4) (p @ attr_bytes t v @ rest)) =
      take (length v) (drop (0 + 4) (replicate 4 0 @ v))" by simp
  then show ?thesis
    using assms unfolding note_value_def plain_attr_def by (intro note_attribute_cong) auto
qed

lemma note_value_offsets:
  assumes "plain_attr (t, v)" "note_value t v r = Some r'"
  shows "sa_message_integrity_offset r' = sa_message_integrity_offset r"
    and "sa_fingerprint_offset r' = sa_fingerprint_offset r"
  using assms by (auto simp: plain_attr_def note_value_def note_attribute_def split: if_splits)

lemma length_attrs_mod [simp]: "length (attrs_bytes as) mod 4 = 0"
proof (induction as)
  case (Cons a as)
  then have "length (attr_bytes (fst a) (snd a)) mod 4 = 0" "length (attrs_bytes as) mod 4 = 0" by simp_all
  then have "(length (attr_bytes (fst a) (snd a)) + length (attrs_bytes as)) mod 4 = 0" by presburger
  then show ?case by (simp add: attrs_bytes_def split_beta)
qed (simp add: attrs_bytes_def)

lemma scan_attrs:
  assumes "length p mod 4 = 0" "list_all plain_attr as" "sa_message_integrity_offset r = None"
  shows "scan_from (p @ attrs_bytes as @ rest) (length p) r =
    (case note_values as r of None \<Rightarrow> None
     | Some r' \<Rightarrow> scan_from (p @ attrs_bytes as @ rest) (length (p @ attrs_bytes as)) r')"
  using assms
proof (induction as arbitrary: p r)
  case Nil
  then show ?case by (simp add: attrs_bytes_def)
next
  case (Cons a as)
  obtain t v where a: "a = (t, v)" by (cases a)
  have plain: "plain_attr (t, v)" and v: "length v \<le> 65535" using Cons.prems(2) a by (auto simp: plain_attr_def)
  let ?rest = "attrs_bytes as @ rest" and ?p1 = "p @ attr_bytes t v"
  have packet: "p @ attrs_bytes (a # as) @ rest = p @ attr_bytes t v @ ?rest"
    by (simp add: a attrs_bytes_def)
  have step: "scan_from (p @ attr_bytes t v @ ?rest) (length p) r =
      (case note_value t v r of None \<Rightarrow> None
       | Some r' \<Rightarrow> scan_from (p @ attr_bytes t v @ ?rest) (length ?p1) r')"
    using scan_attr [OF Cons.prems(1) v, of t ?rest r] Cons.prems(3)
    unfolding note_attribute_local [OF plain] by simp
  show ?case
  proof (cases "note_value t v r")
    case None
    then show ?thesis unfolding packet step by (simp add: a)
  next
    case (Some r1)
    have "length (attr_bytes t v) mod 4 = 0" by simp
    then have p1: "length ?p1 mod 4 = 0" using Cons.prems(1) by (simp add: mod_add_eq [of "length p" 4, symmetric])
    have "scan_from (?p1 @ ?rest) (length ?p1) r1 =
        (case note_values as r1 of None \<Rightarrow> None
         | Some r' \<Rightarrow> scan_from (?p1 @ ?rest) (length (?p1 @ attrs_bytes as)) r')"
      using Cons.IH [OF p1, of r1] Cons.prems(2,3) note_value_offsets(1) [OF plain Some] by simp
    then show ?thesis
      unfolding packet step using Some by (simp add: a attrs_bytes_def split: option.splits)
  qed
qed

section \<open>Integrity and fingerprint\<close>

text \<open>The message over which the digest is taken, and the one over which the fingerprint is.\<close>

definition integrity_input :: "u16 \<Rightarrow> bytes \<Rightarrow> bytes \<Rightarrow> bytes" where
  "integrity_input t tid body = header_bytes t (word_of_nat (length body + 24)) tid @ body"

definition sealed :: "(bytes \<Rightarrow> u32) \<Rightarrow> u16 \<Rightarrow> bytes \<Rightarrow> bytes \<Rightarrow> bytes \<Rightarrow> bytes" where
  "sealed crc t tid body digest =
     (let packet = header_bytes t (word_of_nat (length body + 32)) tid @ body @
            attr_bytes stun_attribute_message_integrity digest
      in packet @ attr_bytes stun_attribute_fingerprint (be32_bytes (fingerprint crc packet)))"

lemma hmac_sha1_length: "hmac_sha1 hmac pw d = Some x \<Longrightarrow> length x = 20"
  by (auto simp: hmac_sha1_def stun_message_integrity_size_def split: if_splits option.splits)

lemma append_sealed:
  assumes "length tid = 12" "length body mod 4 = 0" "length body + 32 \<le> 65535"
  shows "append_integrity_and_fingerprint hmac crc (header_bytes t l tid @ body) pw =
    map_option (sealed crc t tid body) (hmac_sha1 hmac pw (integrity_input t tid body))"
proof -
  let ?p1 = "integrity_input t tid body"
  have p1: "set_message_length (header_bytes t l tid @ body) (length body + 24) = ?p1"
    using assms(3) by (simp add: set_length_header integrity_input_def)
  have al: "(length ?p1) mod 4 = 0"
    using assms(1,2) by (simp add: integrity_input_def mod_add_eq [of 20 4, symmetric])
  show ?thesis
  proof (cases "hmac_sha1 hmac pw ?p1")
    case None
    then show ?thesis
      using assms(1) p1 by (simp add: append_integrity_and_fingerprint_def stun_header_size_def Let_def)
  next
    case (Some digest)
    let ?mi = "attr_bytes stun_attribute_message_integrity digest"
    let ?p3 = "header_bytes t (word_of_nat (length body + 32)) tid @ body @ ?mi"
    have mi: "length ?mi = 24" by (simp add: length_attr_bytes hmac_sha1_length [OF Some])
    have p2: "append_attribute ?p1 stun_attribute_message_integrity digest = ?p1 @ ?mi"
      by (rule append_attribute_eq [OF al])
    have p3: "set_message_length (?p1 @ ?mi) (length body + 32) = ?p3"
      using assms(3) by (simp add: integrity_input_def set_length_header)
    have al3: "length ?p3 mod 4 = 0"
      using assms(1,2) mi by (simp add: mod_add_eq [of 44 4, symmetric])
    have e1: "length (header_bytes t l tid @ body) - stun_header_size + 24 = length body + 24"
      and e2: "length (?p1 @ ?mi) - stun_header_size + 8 = length body + 32"
      using assms(1) mi by (simp_all add: stun_header_size_def integrity_input_def)
    show ?thesis
      unfolding append_integrity_and_fingerprint_def e1 p1 Some Let_def option.case p2 e2 p3
        append_attribute_eq [OF al3] sealed_def by simp
  qed
qed

lemma length_mi_fp:
  "length d = 20 \<Longrightarrow> length (attr_bytes stun_attribute_message_integrity d) = 24"
  "length (attr_bytes stun_attribute_fingerprint (be32_bytes x)) = 8"
  by (simp_all add: length_attr_bytes)

lemma sealed_reads:
  fixes crc :: "bytes \<Rightarrow> u32" and t :: u16
  assumes "length tid = 12" "length body + 32 \<le> 65535" "length d = 20"
  defines "P \<equiv> sealed crc t tid body d"
  shows "length P = length body + 52" "be16_at P 0 = t" "unat (be16_at P 2) = length P - stun_header_size"
    and "take 12 (drop 8 P) = tid"
proof -
  let ?rest = "body @ attr_bytes stun_attribute_message_integrity d @
    attr_bytes stun_attribute_fingerprint (be32_bytes (fingerprint crc
      (header_bytes t (word_of_nat (length body + 32)) tid @ body @ attr_bytes stun_attribute_message_integrity d)))"
  have P: "P = header_bytes t (word_of_nat (length body + 32)) tid @ ?rest"
    by (simp add: P_def sealed_def Let_def)
  show len: "length P = length body + 52"
    using assms(1) by (simp add: P length_mi_fp assms(3))
  show "be16_at P 0 = t" "take 12 (drop 8 P) = tid"
    unfolding P by (rule header_reads [OF assms(1)])+
  have "unat (word_of_nat (length body + 32) :: u16) = length body + 32"
    using assms(2) by (subst unat_of_nat) (simp add: take_bit_nat_eq_self)
  then show "unat (be16_at P 2) = length P - stun_header_size"
    unfolding P header_reads(2) [OF assms(1)] using len P by (simp add: stun_header_size_def)
qed

lemma sealed_verifies:
  fixes crc :: "bytes \<Rightarrow> u32"
  assumes "length tid = 12" "length body + 32 \<le> 65535"
    and d: "hmac_sha1 hmac pw (integrity_input t tid body) = Some d"
  defines "P \<equiv> sealed crc t tid body d"
  shows "verify_message_integrity hmac P (length body + 20) pw"
    and "verify_fingerprint crc P (length body + 44)"
proof -
  have d20: "length d = 20" by (rule hmac_sha1_length [OF d])
  note len = sealed_reads(1) [OF assms(1,2) d20, of crc t, folded P_def]
  let ?hdr = "header_bytes t (word_of_nat (length body + 32)) tid"
  let ?mi = "attr_bytes stun_attribute_message_integrity d"
  let ?fp = "be32_bytes (fingerprint crc (?hdr @ body @ ?mi))"
  have P: "P = ?hdr @ body @ ?mi @ attr_bytes stun_attribute_fingerprint ?fp"
    by (simp add: P_def sealed_def Let_def)
  have tk: "take (length body + 20) P = ?hdr @ body" using assms(1) by (simp add: P)
  have "take 20 (drop (length (?hdr @ body) + 4) ((?hdr @ body) @ ?mi @ attr_bytes stun_attribute_fingerprint ?fp)) = d"
    using attr_reads(3) [of d "?hdr @ body"] d20 by simp
  then have dg: "take 20 (drop (length body + 24) P) = d"
    using assms(1) by (simp add: P add.commute)
  have sl: "set_message_length (?hdr @ body) (length body + 24) = integrity_input t tid body"
    using assms(2) by (simp add: set_length_header integrity_input_def)
  show "verify_message_integrity hmac P (length body + 20) pw"
    using assms(2) len tk sl d dg d20
    by (simp add: verify_message_integrity_def stun_header_size_def add.commute [of 24])
  have tf: "take (length body + 44) P = ?hdr @ body @ ?mi"
    using assms(1) by (simp add: P length_mi_fp d20)
  have "be32_at ((?hdr @ body @ ?mi) @ attr_bytes stun_attribute_fingerprint ?fp) (length (?hdr @ body @ ?mi) + 4) =
      be32_at (?fp @ replicate ((4 - length ?fp mod 4) mod 4) 0) 0"
    by (simp add: be32_at_append2 attr_bytes_def)
  also have "\<dots> = fingerprint crc (?hdr @ body @ ?mi)" by (rule be32_at_bytes)
  finally have fpv: "be32_at P (length body + 48) = fingerprint crc (?hdr @ body @ ?mi)"
    using assms(1) by (simp add: P length_mi_fp d20 add.commute)
  show "verify_fingerprint crc P (length body + 44)"
    using len tf fpv by (simp add: verify_fingerprint_def stun_header_size_def add.commute [of 48])
qed

lemma scan_sealed_tail:
  assumes "length tid = 12" "length body mod 4 = 0" "length d = 20"
    and "sa_message_integrity_offset r = None" "sa_fingerprint_offset r = None"
  shows "scan_from (sealed crc t tid body d) (length body + 20) r =
    Some (r\<lparr>sa_message_integrity_offset := Some (length body + 20),
            sa_fingerprint_offset := Some (length body + 44)\<rparr>)"
proof -
  let ?hdr = "header_bytes t (word_of_nat (length body + 32)) tid"
  let ?mi = "attr_bytes stun_attribute_message_integrity d"
  let ?fp = "be32_bytes (fingerprint crc (?hdr @ body @ ?mi))"
  let ?fpa = "attr_bytes stun_attribute_fingerprint ?fp"
  let ?r1 = "r\<lparr>sa_message_integrity_offset := Some (length body + 20)\<rparr>"
  let ?r2 = "?r1\<lparr>sa_fingerprint_offset := Some (length body + 44)\<rparr>"
  have P: "sealed crc t tid body d = (?hdr @ body) @ ?mi @ ?fpa"
    by (simp add: sealed_def Let_def)
  have P': "sealed crc t tid body d = (?hdr @ body @ ?mi) @ ?fpa @ []"
    by (simp add: sealed_def Let_def)
  have al: "length (?hdr @ body) mod 4 = 0" "length (?hdr @ body @ ?mi) mod 4 = 0"
    using assms(1,2) by (simp_all add: mod_add_eq [of 20 4, symmetric] mod_add_eq [of 44 4, symmetric] length_mi_fp assms(3))
  have lens: "length (?hdr @ body) = length body + 20" "length (?hdr @ body @ ?mi) = length body + 44"
    "length ((?hdr @ body) @ ?mi) = length body + 44"
    "length ((?hdr @ body @ ?mi) @ ?fpa) = length (sealed crc t tid body d)"
    using assms(1) by (simp_all add: length_mi_fp assms(3) P')
  have n1: "note_attribute Q (length body + 20) stun_attribute_message_integrity (length d) r = Some ?r1" for Q
    using assms(3,4) by (simp add: note_attribute_def stun_types stun_message_integrity_size_def)
  have n2: "note_attribute Q (length body + 44) stun_attribute_fingerprint (length ?fp) ?r1 = Some ?r2" for Q
    using assms(5) by (simp add: note_attribute_def stun_types)
  have s1: "scan_from (sealed crc t tid body d) (length body + 20) r =
      scan_from (sealed crc t tid body d) (length body + 44) ?r1"
    using scan_attr [OF al(1), of d stun_attribute_message_integrity ?fpa r] assms(3,4)
    unfolding P [symmetric] lens n1 by simp
  have s2: "scan_from (sealed crc t tid body d) (length body + 44) ?r1 = Some ?r2"
    using scan_attr [OF al(2), of ?fp stun_attribute_fingerprint "[]" ?r1]
    unfolding P' [symmetric] lens n2 by (simp add: scan_end)
  show ?thesis unfolding s1 s2 ..
qed

section \<open>Round trips\<close>

lemma request_type_bits:
  "ucast (drop_bit 8 stun_binding_request_type) AND (0xc0 :: u8) = 0"
  "ucast (drop_bit 8 stun_binding_success_response_type) AND (0xc0 :: u8) = 0"
  by (simp_all add: stun_binding_request_type_def stun_binding_success_response_type_def)

lemma is_stun_sealed:
  assumes "length tid = 12" "ucast (drop_bit 8 t) AND (0xc0 :: u8) = 0"
  shows "is_stun_message (sealed crc t tid body d)"
  using is_stun_header [OF assms] by (simp add: sealed_def Let_def)

text \<open>The attributes of a request the server sends.\<close>

definition request_attrs :: "bytes \<Rightarrow> u32 \<Rightarrow> u64 \<Rightarrow> (u16 \<times> bytes) list" where
  "request_attrs username priority tie_breaker =
     [(stun_attribute_username, username),
      (stun_attribute_priority, be32_bytes priority),
      (stun_attribute_ice_controlling,
       be32_bytes (ucast (drop_bit 32 tie_breaker)) @ be32_bytes (ucast (tie_breaker AND 0xffffffff))),
      (stun_attribute_use_candidate, [])]"

lemma mod4_add: "m mod 4 = 0 \<Longrightarrow> n mod 4 = 0 \<Longrightarrow> (m + n) mod (4 :: nat) = 0"
  by presburger

lemma length_request_attrs: "length (attrs_bytes (request_attrs u p tb)) \<le> length u + 31"
  by (simp add: attrs_bytes_def request_attrs_def length_attr_bytes)

lemma make_request_eq:
  assumes "length tid = 12" "length (attrs_bytes (request_attrs u p tb)) + 32 \<le> 65535"
  shows "make_stun_binding_request hmac crc tid u pw p tb =
    (case hmac_sha1 hmac pw (integrity_input stun_binding_request_type tid (attrs_bytes (request_attrs u p tb))) of
       None \<Rightarrow> [] | Some d \<Rightarrow> sealed crc stun_binding_request_type tid (attrs_bytes (request_attrs u p tb)) d)"
proof -
  let ?h = "header_bytes stun_binding_request_type 0 tid"
  have h: "length ?h mod 4 = 0" using assms(1) by simp
  have p1: "append_attribute ?h a v = ?h @ attr_bytes a v" for a v
    by (rule append_attribute_eq [OF h])
  have step: "append_attribute (?h @ b) a v = ?h @ b @ attr_bytes a v" if "length b mod 4 = 0" for b a v
    using append_attribute_eq [of "?h @ b" a v] mod4_add [OF h that] by simp
  have "make_stun_binding_request hmac crc tid u pw p tb =
      (case append_integrity_and_fingerprint hmac crc (?h @ attrs_bytes (request_attrs u p tb)) pw of None \<Rightarrow> [] | Some q \<Rightarrow> q)"
    by (simp add: make_stun_binding_request_def make_header_eq Let_def p1 step mod4_add request_attrs_def attrs_bytes_def)
  then show ?thesis
    using append_sealed [OF assms(1) length_attrs_mod assms(2), of hmac crc stun_binding_request_type 0 pw]
    by (simp split: option.splits)
qed

lemma note_values_offsets:
  assumes "list_all plain_attr as" "note_values as r = Some r'"
  shows "sa_message_integrity_offset r' = sa_message_integrity_offset r \<and>
    sa_fingerprint_offset r' = sa_fingerprint_offset r"
  using assms
proof (induction as arbitrary: r)
  case (Cons a as)
  obtain t v where a: "a = (t, v)" by (cases a)
  then obtain r1 where r1: "note_value t v r = Some r1" "note_values as r1 = Some r'"
    using Cons.prems(2) by (auto split: option.splits)
  have "plain_attr (t, v)" "list_all plain_attr as" using Cons.prems(1) a by auto
  with Cons.IH [OF _ r1(2)] note_value_offsets [OF _ r1(1)] show ?case by simp
qed simp

lemma scan_sealed:
  assumes "length tid = 12" "length d = 20" "list_all plain_attr as"
    and "note_values as no_attributes = Some r"
  shows "scan_stun_attributes (sealed crc t tid (attrs_bytes as) d) =
    Some (r\<lparr>sa_message_integrity_offset := Some (length (attrs_bytes as) + 20),
            sa_fingerprint_offset := Some (length (attrs_bytes as) + 44)\<rparr>)"
proof -
  let ?P = "sealed crc t tid (attrs_bytes as) d"
  obtain h rest where P: "?P = h @ attrs_bytes as @ rest" and h: "length h = 20"
    using assms(1) by (simp add: sealed_def Let_def)
  have off: "sa_message_integrity_offset r = None" "sa_fingerprint_offset r = None"
    using note_values_offsets [OF assms(3,4)] by (simp_all add: no_attributes_def)
  have "scan_stun_attributes ?P = scan_from ?P (length (attrs_bytes as) + 20) r"
    using scan_attrs [of h as no_attributes rest] assms(3,4) h
    by (simp add: scan_stun_attributes_def stun_header_size_def P no_attributes_def add.commute)
  with scan_sealed_tail [OF assms(1) _ assms(2) off] show ?thesis by simp
qed

lemma request_attrs_noted:
  assumes "length u \<le> 65535"
  shows "list_all plain_attr (request_attrs u p tb)"
    and "note_values (request_attrs u p tb) no_attributes =
      Some (no_attributes\<lparr>sa_username := Some u, sa_priority := True, sa_ice_controlling := True,
              sa_use_candidate := True\<rparr>)"
  using assms
  by (simp_all add: request_attrs_def plain_attr_def stun_types note_value_def note_attribute_def no_attributes_def)

lemma request_parses:
  assumes "length tid = 12" "length u \<le> 65472"
    and "make_stun_binding_request hmac crc tid u pw prio tb \<noteq> []"
  shows "parse_stun_binding_request hmac crc (make_stun_binding_request hmac crc tid u pw prio tb) u pw =
    Some \<lparr>sb_transaction_id = tid, sb_unknown_required_attributes = [], sb_priority = True,
          sb_use_candidate = True, sb_ice_controlling = True, sb_ice_controlled = False\<rparr>"
proof -
  let ?as = "request_attrs u prio tb" and ?t = stun_binding_request_type
  have fits: "length (attrs_bytes ?as) + 32 \<le> 65535"
    using length_request_attrs [of u prio tb] assms(2) by linarith
  obtain d where d: "hmac_sha1 hmac pw (integrity_input ?t tid (attrs_bytes ?as)) = Some d"
    and P: "make_stun_binding_request hmac crc tid u pw prio tb = sealed crc ?t tid (attrs_bytes ?as) d"
    using assms(3) by (auto simp: make_request_eq [OF assms(1) fits] split: option.splits)
  have d20: "length d = 20" by (rule hmac_sha1_length [OF d])
  have noted: "list_all plain_attr ?as" "note_values ?as no_attributes =
      Some (no_attributes\<lparr>sa_username := Some u, sa_priority := True, sa_ice_controlling := True,
              sa_use_candidate := True\<rparr>)"
    using assms(2) by (simp_all add: request_attrs_noted)
  note scan = scan_sealed [OF assms(1) d20 noted, of crc ?t]
  note reads = sealed_reads [OF assms(1) fits d20, of crc ?t]
  note ok = sealed_verifies [OF assms(1) fits d, of crc]
  show ?thesis
    unfolding P parse_stun_binding_request_def validate_stun_binding_authentication_def
    using scan reads ok is_stun_sealed [OF assms(1) request_type_bits(1)]
    by (simp add: no_attributes_def)
qed

text \<open>
  C26: a binding request built by the server is accepted by its own parser under the same user
  name and password: every attribute is read back, no attribute is unknown, the
  integrity digest and the fingerprint verify, and the transaction id is returned. The
  only hypotheses are a 12-byte transaction id, a user name that fits the 16-bit length
  field and that the HMAC call succeeded.
\<close>

theorem stun_request_roundtrip:
  assumes "length tid = 12" "length u \<le> 65472"
    and "make_stun_binding_request hmac crc tid u pw prio tb \<noteq> []"
  shows "parse_stun_binding_request hmac crc (make_stun_binding_request hmac crc tid u pw prio tb) u pw =
    Some \<lparr>sb_transaction_id = tid, sb_unknown_required_attributes = [], sb_priority = True,
          sb_use_candidate = True, sb_ice_controlling = True, sb_ice_controlled = False\<rparr>"
  by (rule request_parses [OF assms])

text \<open>A sample packet, with a stand-in for the HMAC and the CRC.\<close>

definition sample_packet :: bytes where
  "sample_packet =
     make_stun_binding_request (\<lambda>pw d. Some (replicate 20 5)) (\<lambda>d. 0) (replicate 12 7) [97, 58, 98] [1] 9 10"

lemma sample_packet_nonempty: "sample_packet \<noteq> []"
proof -
  have "length (attrs_bytes (request_attrs [97, 58, 98] 9 10)) + 32 \<le> 65535"
    using length_request_attrs [of "[97, 58, 98]" 9 10] by simp
  then show ?thesis
    by (simp add: sample_packet_def make_request_eq hmac_sha1_def stun_message_integrity_size_def
        sealed_def Let_def header_bytes_def be16_bytes_def)
qed

theorem stun_request_roundtrip_witness:
  "parse_stun_binding_request (\<lambda>pw d. Some (replicate 20 5)) (\<lambda>d. 0) sample_packet [97, 58, 98] [1] =
   Some \<lparr>sb_transaction_id = replicate 12 7, sb_unknown_required_attributes = [], sb_priority = True,
         sb_use_candidate = True, sb_ice_controlling = True, sb_ice_controlled = False\<rparr>"
  using stun_request_roundtrip [OF _ _ sample_packet_nonempty [unfolded sample_packet_def]]
  by (simp add: sample_packet_def)

text \<open>A masked address is unmasked by the same bytes.\<close>

lemma xor_twice: "length a \<le> length m \<Longrightarrow> map2 (XOR) (map2 (XOR) a m) m = (a :: bytes)"
proof (induction a arbitrary: m)
  case (Cons x a)
  then show ?case by (cases m) (simp_all add: xor.assoc)
qed simp

lemma make_success_eq:
  assumes "length tid = 12" "length (xor_mapped_address ad port tid) \<le> 20"
  defines "as \<equiv> [(stun_attribute_xor_mapped_address, xor_mapped_address ad port tid)]"
    and "t \<equiv> stun_binding_success_response_type"
  assumes "sb_transaction_id request = tid"
  shows "make_stun_binding_success_response hmac crc request ad port pw =
    (case hmac_sha1 hmac pw (integrity_input t tid (attrs_bytes as)) of
       None \<Rightarrow> [] | Some d \<Rightarrow> sealed crc t tid (attrs_bytes as) d)"
    and "length (attrs_bytes as) + 32 \<le> 65535"
proof -
  let ?v = "xor_mapped_address ad port tid"
  show fits: "length (attrs_bytes as) + 32 \<le> 65535"
    using assms(2) by (simp add: as_def attrs_bytes_def length_attr_bytes)
  have "length (header_bytes t 0 tid) mod 4 = 0" using assms(1) by simp
  from append_attribute_eq [OF this]
  show "make_stun_binding_success_response hmac crc request ad port pw =
      (case hmac_sha1 hmac pw (integrity_input t tid (attrs_bytes as)) of
         None \<Rightarrow> [] | Some d \<Rightarrow> sealed crc t tid (attrs_bytes as) d)"
    using append_sealed [OF assms(1) length_attrs_mod fits, of hmac crc t 0 pw] assms(5)
    by (simp add: make_stun_binding_success_response_def make_header_eq t_def as_def attrs_bytes_def
        Let_def split: option.splits)
qed

lemma length_xor_mapped: "length tid = 12 \<Longrightarrow> length (xor_mapped_address ad port tid) \<le> 20"
  by (cases ad) (simp_all add: xor_mapped_address_def)

text \<open>
  A success response built for a request is accepted under the same password, with the
  transaction id of the request, for every IPv4 or IPv6 endpoint.
\<close>

lemma stun_success_roundtrip:
  assumes "length (sb_transaction_id request) = 12"
    and "make_stun_binding_success_response hmac crc request ad port pw \<noteq> []"
  shows "parse_stun_binding_success_response hmac crc
      (make_stun_binding_success_response hmac crc request ad port pw) pw =
    Some (sb_transaction_id request)"
proof -
  define tid where "tid = sb_transaction_id request"
  have tid: "length tid = 12" using assms(1) by (simp add: tid_def)
  let ?as = "[(stun_attribute_xor_mapped_address, xor_mapped_address ad port tid)]"
  let ?t = stun_binding_success_response_type
  note len = length_xor_mapped [OF tid, of ad port]
  note eq = make_success_eq(1) [OF tid len tid_def [symmetric], of hmac crc pw]
  note fits = make_success_eq(2) [OF tid len tid_def [symmetric]]
  obtain d where d: "hmac_sha1 hmac pw (integrity_input ?t tid (attrs_bytes ?as)) = Some d"
    and P: "make_stun_binding_success_response hmac crc request ad port pw = sealed crc ?t tid (attrs_bytes ?as) d"
    using assms(2) eq by (auto split: option.splits)
  have d20: "length d = 20" by (rule hmac_sha1_length [OF d])
  have noted: "list_all plain_attr ?as" "note_values ?as no_attributes = Some no_attributes"
    using len by (simp_all add: plain_attr_def stun_types note_value_def note_attribute_def)
  show ?thesis
    unfolding P parse_stun_binding_success_response_def
    using scan_sealed [OF tid d20 noted, of crc ?t] sealed_reads [OF tid fits d20, of crc ?t]
      sealed_verifies [OF tid fits d, of crc] is_stun_sealed [OF tid request_type_bits(2)]
    by (simp add: no_attributes_def tid_def [symmetric])
qed

definition sample_request :: stun_binding_request where
  "sample_request = \<lparr>sb_transaction_id = replicate 12 3, sb_unknown_required_attributes = [],
     sb_priority = True, sb_use_candidate = True, sb_ice_controlling = True, sb_ice_controlled = False\<rparr>"

text \<open>
  C27: the reflexive address a response carries is the peer's: unmasking the port with the top
  half of the magic cookie and the address with the cookie followed by the transaction id
  gives back exactly the endpoint, for both address families.
\<close>

theorem xor_mapped_address_unmasks:
  assumes "length tid = 12" "ad = V4 a \<and> length a = 4 \<or> ad = V6 a \<and> length a = 16"
  shows "map2 (XOR) (drop 4 (xor_mapped_address ad port tid)) (be32_bytes stun_magic_cookie @ tid) = a \<and>
    be16_at (xor_mapped_address ad port tid) 2 XOR 0x2112 = port \<and>
    byte_at (xor_mapped_address ad port tid) 1 = (case ad of V4 _ \<Rightarrow> 1 | V6 _ \<Rightarrow> 2)"
proof -
  let ?m = "[0x21, 0x12, 0xa4, 0x42] :: bytes"
  have cookie: "be32_bytes stun_magic_cookie = ?m"
    by (simp add: be32_bytes_def stun_magic_cookie_def)
  have port: "be16_at ([0, x] @ be16_bytes (port XOR 0x2112) @ rest) 2 XOR 0x2112 = port" for x rest
    using be16_at_append2 [of "[0, x]" 2 "be16_bytes (port XOR 0x2112) @ rest"]
      be16_at_bytes [of "port XOR 0x2112" rest] by (simp add: xor.assoc)
  have top: "(ucast (drop_bit 16 stun_magic_cookie) :: u16) = 0x2112" by (simp add: stun_magic_cookie_def)
  from assms(2) show ?thesis
  proof
    assume v4: "ad = V4 a \<and> length a = 4"
    then obtain a0 a1 a2 a3 where "a = [a0, a1, a2, a3]"
      by (auto simp: numeral_eq_Suc length_Suc_conv)
    then have "map2 (XOR) (map2 (XOR) a ?m) (?m @ tid) = a" by (simp add: xor.assoc)
    with v4 show ?thesis
      using port [of 1 "map2 (XOR) a ?m"]
      by (simp add: xor_mapped_address_def cookie top byte_at_def)
  next
    assume "ad = V6 a \<and> length a = 16"
    then show ?thesis
      using port [of 2 "map2 (XOR) a (?m @ tid)"] xor_twice [of a "?m @ tid"] assms(1)
      by (simp add: xor_mapped_address_def cookie top byte_at_def)
  qed
qed

theorem xor_mapped_address_unmasks_witness:
  "be16_at (xor_mapped_address (V4 [10, 0, 0, 1]) 5000 (replicate 12 3)) 2 XOR 0x2112 = 5000"
  using xor_mapped_address_unmasks [of "replicate 12 3" "V4 [10, 0, 0, 1]" "[10, 0, 0, 1]" 5000] by simp

section \<open>Only authenticated bytes matter\<close>

text \<open>One step of the scan, with the rejected packets out of the way.\<close>

lemma scan_step:
  assumes "scan_from p off r = Some a" "off \<noteq> length p"
  defines "type \<equiv> be16_at p off" and "len \<equiv> unat (be16_at p (off + 2))"
  obtains r' where "off + 4 + len \<le> length p" "scan_from p (align4 (off + 4 + len)) r' = Some a"
    and "if sa_message_integrity_offset r \<noteq> None \<and> type \<noteq> stun_attribute_fingerprint then r' = r
         else note_attribute p off type len r = Some r'"
  using assms(1,2) that unfolding scan_from.simps [of p off r] type_def len_def Let_def
  by (auto split: if_splits option.splits)

lemma align4_ge: "n \<le> align4 n"
  by (simp add: align4_def)

lemma note_after_integrity:
  assumes "note_attribute p off stun_attribute_fingerprint len r = Some r'"
  shows "r' = r\<lparr>sa_fingerprint_offset := sa_fingerprint_offset r'\<rparr>"
  using assms by (auto simp: note_attribute_def stun_types split: if_splits)

text \<open>After the integrity attribute only the fingerprint offset can change.\<close>

lemma scan_after_integrity:
  assumes "scan_from p off r = Some a" "sa_message_integrity_offset r \<noteq> None"
  shows "a = r\<lparr>sa_fingerprint_offset := sa_fingerprint_offset a\<rparr>"
  using assms
proof (induction "length p + 4 - off" arbitrary: off r rule: less_induct)
  case less
  show ?case
  proof (cases "off = length p")
    case True
    then show ?thesis using less.prems(1) by (simp add: scan_end)
  next
    case False
    then obtain r' where s: "off + 4 + unat (be16_at p (off + 2)) \<le> length p"
      "scan_from p (align4 (off + 4 + unat (be16_at p (off + 2)))) r' = Some a"
      and r': "if sa_message_integrity_offset r \<noteq> None \<and> be16_at p off \<noteq> stun_attribute_fingerprint
        then r' = r else note_attribute p off (be16_at p off) (unat (be16_at p (off + 2))) r = Some r'"
      using scan_step [OF less.prems(1)] by blast
    have eq: "r' = r\<lparr>sa_fingerprint_offset := sa_fingerprint_offset r'\<rparr>"
      using r' less.prems(2) note_after_integrity by (cases "be16_at p off = stun_attribute_fingerprint") auto
    have mi: "sa_message_integrity_offset r' = sa_message_integrity_offset r" by (subst eq) simp
    have "length p + 4 - align4 (off + 4 + unat (be16_at p (off + 2))) < length p + 4 - off"
      using s(1) align4_ge [of "off + 4 + unat (be16_at p (off + 2))"] by linarith
    from less.hyps [OF this s(2)] mi less.prems(2)
    have "a = r'\<lparr>sa_fingerprint_offset := sa_fingerprint_offset a\<rparr>" by simp
    then show ?thesis by (subst (asm) eq) simp
  qed
qed

lemma byte_at_take: "i < m \<Longrightarrow> byte_at (take m p) i = byte_at p i"
  by (simp add: byte_at_def)

lemma be16_at_take: "i + 1 < m \<Longrightarrow> be16_at (take m p) i = be16_at p i"
  by (simp add: be16_at_def byte_at_take)

lemma note_attribute_take:
  assumes "off + 4 + len \<le> m"
  shows "note_attribute (take m p) off t len r = note_attribute p off t len r"
proof -
  have "take len (drop (off + 4) (take m p)) = take len (drop (off + 4) p)"
    using assms by (simp add: drop_take min_def)
  then show ?thesis by (simp add: note_attribute_def)
qed

lemma note_integrity:
  assumes "note_attribute p off t len r = Some r'" "sa_message_integrity_offset r = None"
  shows "sa_message_integrity_offset r' = (if t = stun_attribute_message_integrity then Some off else None)"
  using assms by (auto simp: note_attribute_def stun_types split: if_splits)

lemma note_integrity_attr:
  assumes "note_attribute p off stun_attribute_message_integrity len r = Some r'"
  shows "len = 20" "r' = r\<lparr>sa_message_integrity_offset := Some off\<rparr>"
  using assms by (auto simp: note_attribute_def stun_types stun_message_integrity_size_def split: if_splits)

lemma scan_take_step:
  assumes "off + 4 + len \<le> m" "m \<le> length p" "len = unat (be16_at p (off + 2))"
    and "note_attribute p off (be16_at p off) len r = Some r'" "sa_message_integrity_offset r = None"
  shows "scan_from (take m p) off r = scan_from (take m p) (align4 (off + 4 + len)) r'"
proof -
  have "be16_at (take m p) off = be16_at p off" "be16_at (take m p) (off + 2) = be16_at p (off + 2)"
    using assms(1) by (simp_all add: be16_at_take)
  moreover have "note_attribute (take m p) off (be16_at p off) len r = Some r'"
    using note_attribute_take [OF assms(1)] assms(4) by simp
  moreover have "min (length p) m = m" using assms(2) by simp
  ultimately show ?thesis
    using assms(1,3,5) unfolding scan_from.simps [of "take m p" off r] Let_def length_take by simp
qed

lemma scan_prefix:
  assumes "scan_from p off r = Some a" "sa_message_integrity_offset r = None"
    and "sa_message_integrity_offset a = Some m"
  shows "off \<le> m \<and> m + 24 \<le> length p \<and> (\<exists>a'. scan_from (take m p) off r = Some a' \<and>
    a = a'\<lparr>sa_message_integrity_offset := Some m, sa_fingerprint_offset := sa_fingerprint_offset a\<rparr>)"
  using assms(1,2)
proof (induction "length p + 4 - off" arbitrary: off r rule: less_induct)
  case less
  have "off \<noteq> length p" using less.prems assms(3) by (auto simp: scan_end)
  define len where "len = unat (be16_at p (off + 2))"
  obtain r' where len_ok: "off + 4 + len \<le> length p"
    and rest: "scan_from p (align4 (off + 4 + len)) r' = Some a"
    and noted: "note_attribute p off (be16_at p off) len r = Some r'"
    using scan_step [OF less.prems(1) \<open>off \<noteq> length p\<close>] less.prems(2) unfolding len_def by auto
  show ?case
  proof (cases "be16_at p off = stun_attribute_message_integrity")
    case True
    note i = note_integrity_attr [OF noted [unfolded True]]
    have "a = r'\<lparr>sa_fingerprint_offset := sa_fingerprint_offset a\<rparr>"
      by (rule scan_after_integrity [OF rest]) (simp add: i(2))
    then have a: "a = r\<lparr>sa_message_integrity_offset := Some off, sa_fingerprint_offset := sa_fingerprint_offset a\<rparr>"
      unfolding i(2) by simp
    have "sa_message_integrity_offset a = Some off" by (subst a) simp
    then have "m = off" using assms(3) by simp
    moreover have "scan_from (take off p) off r = Some r"
      using scan_end [of "take off p" r] len_ok by simp
    ultimately show ?thesis using a len_ok i(1) by auto
  next
    case False
    then have mi: "sa_message_integrity_offset r' = None"
      using note_integrity [OF noted less.prems(2)] by simp
    have "length p + 4 - align4 (off + 4 + len) < length p + 4 - off"
      using len_ok align4_ge [of "off + 4 + len"] by linarith
    from less.hyps [OF this rest mi] obtain a' where
      m: "align4 (off + 4 + len) \<le> m" "m + 24 \<le> length p"
      and a': "scan_from (take m p) (align4 (off + 4 + len)) r' = Some a'"
        "a = a'\<lparr>sa_message_integrity_offset := Some m, sa_fingerprint_offset := sa_fingerprint_offset a\<rparr>"
      by blast
    have "off + 4 + len \<le> m" using m(1) align4_ge [of "off + 4 + len"] by linarith
    then have "scan_from (take m p) off r = Some a'"
      using scan_take_step [OF _ _ len_def noted less.prems(2), of m] m(2) a'(1) by simp
    with m a'(2) \<open>off + 4 + len \<le> m\<close> show ?thesis by auto
  qed
qed

text \<open>The request a packet prefix and its scanned attributes stand for.\<close>

definition request_of :: "bytes \<Rightarrow> stun_binding_attributes \<Rightarrow> stun_binding_request" where
  "request_of packet a =
     \<lparr>sb_transaction_id = take 12 (drop 8 packet),
      sb_unknown_required_attributes = sa_unknown_required_attributes a,
      sb_priority = sa_priority a, sb_use_candidate = sa_use_candidate a,
      sb_ice_controlling = sa_ice_controlling a, sb_ice_controlled = sa_ice_controlled a\<rparr>"

lemma validate_cases:
  assumes "validate_stun_binding_authentication hmac crc p a user pw"
  obtains m fp where "sa_username a = Some user" "sa_message_integrity_offset a = Some m"
    "verify_message_integrity hmac p m pw" "sa_fingerprint_offset a = Some fp" "fp + 8 = length p"
    "verify_fingerprint crc p fp"
  using assms by (auto simp: validate_stun_binding_authentication_def split: option.splits if_splits)

text \<open>
  C25: an accepted request is determined by authenticated bytes. If a packet is accepted, it has
  a prefix, at least the header, such that the HMAC under the shared password of that
  prefix (with the length field set to end at the digest) stands right behind it, and the
  transaction id, the user name and every flag of the request are what scanning that prefix
  alone gives. Bytes behind the digest can only influence the fingerprint check.
\<close>

theorem stun_request_authenticated:
  assumes "parse_stun_binding_request hmac crc p user pw = Some req"
  shows "\<exists>m d a. 20 \<le> m \<and> m + 24 \<le> length p \<and>
    hmac_sha1 hmac pw (set_message_length (take m p) (m + 4)) = Some d \<and>
    take 20 (drop (m + 4) p) = d \<and>
    scan_stun_attributes (take m p) = Some a \<and> sa_username a = Some user \<and>
    req = request_of (take m p) a"
proof -
  obtain a where scan: "scan_stun_attributes p = Some a"
    and val: "validate_stun_binding_authentication hmac crc p a user pw"
    and req: "req = request_of p a"
    using assms unfolding parse_stun_binding_request_def request_of_def
    by (auto split: if_splits option.splits)
  from val obtain m where m: "sa_username a = Some user" "sa_message_integrity_offset a = Some m"
    "verify_message_integrity hmac p m pw" by (rule validate_cases)
  from scan_prefix [OF scan [unfolded scan_stun_attributes_def] _ m(2)] obtain a' where
    m20: "20 \<le> m" "m + 24 \<le> length p" and a': "scan_stun_attributes (take m p) = Some a'"
    and eq: "a = a'\<lparr>sa_message_integrity_offset := Some m, sa_fingerprint_offset := sa_fingerprint_offset a\<rparr>"
    by (auto simp: no_attributes_def stun_header_size_def scan_stun_attributes_def)
  have "m - 20 + 24 = m + 4" using m20(1) by simp
  then obtain d where d: "hmac_sha1 hmac pw (set_message_length (take m p) (m + 4)) = Some d"
    "d = take (length d) (drop (m + 4) p)"
    using m(3) by (auto simp: verify_message_integrity_def stun_header_size_def Let_def add.commute [of 4]
        split: if_splits option.splits)
  have "sa_username a' = Some user" using m(1) by (subst (asm) eq) simp
  moreover have "req = request_of (take m p) a'"
    using m20 unfolding req by (subst eq) (simp add: request_of_def drop_take min_def)
  ultimately show ?thesis
    using m20 d(1) d(2) [symmetric] a' hmac_sha1_length [OF d(1)] by auto
qed

theorem stun_request_authenticated_witness:
  "\<exists>m a. 20 \<le> m \<and> scan_stun_attributes (take m sample_packet) = Some a \<and> sa_username a = Some [97, 58, 98]"
proof -
  have "parse_stun_binding_request (\<lambda>pw d. Some (replicate 20 5)) (\<lambda>d. 0) sample_packet [97, 58, 98] [1] =
      Some \<lparr>sb_transaction_id = replicate 12 7, sb_unknown_required_attributes = [], sb_priority = True,
         sb_use_candidate = True, sb_ice_controlling = True, sb_ice_controlled = False\<rparr>"
    using request_parses [OF _ _ sample_packet_nonempty [unfolded sample_packet_def]]
    by (simp add: sample_packet_def)
  from stun_request_authenticated [OF this] show ?thesis by blast
qed

end
