(* ===== verification/Hls_Segmenter.thy ===== *)
theory Hls_Segmenter
  imports Media_Types Complex_Main "HOL-Library.List_Lexorder" "HOL-Library.Char_ord"
begin

text \<open>
  \<open>media/hls/hls_segmenter.cpp\<close> and \<open>media/hls/hls.cpp\<close>: cutting a stream into MPEG-TS segments
  for HLS, the sliding window of segments, the playlist, and the directory of segmenters.

  The TS muxer is the library the code calls: what \<open>mpeg_ts_create\<close>, \<open>mpeg_ts_add_stream\<close>
  and \<open>mpeg_ts_write\<close> answer is the argument \<open>mux\<close> of the operations. \<open>mpeg_ts_write\<close> hands
  its packets to \<open>ts_write\<close> one after another and returns the first non-zero answer, else its
  own result. Durations are exact rationals (the code holds them as \<open>double\<close> seconds), the
  lines of a playlist are a datatype, and the steady clock is a rational number of seconds.

  \<open>seg_opener\<close> and \<open>hs_opener\<close> record the kind and key-frame flag of the first frame given to
  the muxer for a segment; no operation reads them.
\<close>

definition target_duration_seconds :: rat where "target_duration_seconds = 2"
definition segment_window_size :: nat where "segment_window_size = 6"
definition max_segment_bytes :: nat where "max_segment_bytes = 16 * 1024 * 1024"

record track_state =
  ts_track :: media_track
  ts_stream_id :: int

record segment =
  seg_sequence :: u64
  seg_duration :: rat
  seg_data :: bytes
  seg_opener :: "media_kind \<times> bool"

record hls_segmenter =
  hs_tracks :: "(track_id, track_state) smap"
  hs_segments :: "segment list"
  hs_current_segment :: bytes
  hs_muxer :: bool
  hs_next_sequence :: u64
  hs_segment_start_pts_ns :: "int option"
  hs_segment_max_pts_ns :: int
  hs_ended_at :: "rat option"
  hs_waiting_for_key_frame :: bool
  hs_has_video :: bool
  hs_source :: bool
  hs_opener :: "media_kind \<times> bool"

definition new_hls_segmenter :: hls_segmenter where
  "new_hls_segmenter =
     \<lparr>hs_tracks = [], hs_segments = [], hs_current_segment = [], hs_muxer = False, hs_next_sequence = 0,
      hs_segment_start_pts_ns = None, hs_segment_max_pts_ns = 0, hs_ended_at = None,
      hs_waiting_for_key_frame = False, hs_has_video = False, hs_source = False,
      hs_opener = (Audio, False)\<rparr>"

text \<open>The answers of the muxer library to the calls one operation makes.\<close>

record mux_answers =
  mux_create :: bool
  mux_add_stream :: "track_id \<Rightarrow> int"
  mux_packets :: "bytes list"
  mux_result :: int

datatype write_result = Ok | NoBuffers | MuxError int

section \<open>The muxer's call-backs and re-creation\<close>

definition ts_write :: "bytes \<Rightarrow> bytes \<Rightarrow> write_result \<times> bytes" where
  "ts_write packet current =
     (if length packet > max_segment_bytes - length current then (NoBuffers, current)
      else (Ok, current @ packet))"

fun write_packets :: "bytes list \<Rightarrow> bytes \<Rightarrow> write_result \<times> bytes" where
  "write_packets [] current = (Ok, current)"
| "write_packets (p # ps) current =
     (case ts_write p current of
        (Ok, current') \<Rightarrow> write_packets ps current'
      | failed \<Rightarrow> failed)"

definition mpeg_ts_write :: "mux_answers \<Rightarrow> bytes \<Rightarrow> write_result \<times> bytes" where
  "mpeg_ts_write mux current =
     (case write_packets (mux_packets mux) current of
        (Ok, current') \<Rightarrow> (if mux_result mux = 0 then Ok else MuxError (mux_result mux), current')
      | failed \<Rightarrow> failed)"

fun add_track_to_muxer :: "mux_answers \<Rightarrow> media_track \<Rightarrow> int" where
  "add_track_to_muxer mux track =
     (case mt_codec track of
        H264 \<Rightarrow> mux_add_stream mux (mt_id track)
      | H265 \<Rightarrow> mux_add_stream mux (mt_id track)
      | AAC \<Rightarrow> mux_add_stream mux (mt_id track)
      | _ \<Rightarrow> -1)"

text \<open>The loop over the tracks: the updated tracks and whether every one got a stream.\<close>

fun assign_streams :: "mux_answers \<Rightarrow> (track_id, track_state) smap \<Rightarrow> bool \<times> (track_id, track_state) smap" where
  "assign_streams mux [] = (True, [])"
| "assign_streams mux ((k, state) # rest) =
     (let state' = state\<lparr>ts_stream_id := add_track_to_muxer mux (ts_track state)\<rparr>
      in if ts_stream_id state' \<le> 0 then (False, (k, state') # rest)
         else let (ok, rest') = assign_streams mux rest in (ok, (k, state') # rest'))"

text \<open>\<open>recreate_muxer\<close> keeps the old muxer when it fails.\<close>

definition recreate_muxer ::
  "mux_answers \<Rightarrow> (track_id, track_state) smap \<Rightarrow> hls_segmenter \<Rightarrow>
   bool \<times> (track_id, track_state) smap \<times> hls_segmenter" where
  "recreate_muxer mux tracks s =
     (if \<not> mux_create mux then (False, tracks, s)
      else case assign_streams mux tracks of
        (False, tracks') \<Rightarrow> (False, tracks', s)
      | (True, tracks') \<Rightarrow> (True, tracks', s\<lparr>hs_muxer := True\<rparr>))"

text \<open>The call on the segmenter's own tracks.\<close>

definition recreate_own_muxer :: "mux_answers \<Rightarrow> hls_segmenter \<Rightarrow> bool \<times> hls_segmenter" where
  "recreate_own_muxer mux s =
     (case recreate_muxer mux (hs_tracks s) s of (ok, tracks, s') \<Rightarrow> (ok, s'\<lparr>hs_tracks := tracks\<rparr>))"

section \<open>Segments\<close>

fun pop_window :: "segment list \<Rightarrow> segment list" where
  "pop_window [] = []"
| "pop_window (x # xs) = (if length (x # xs) > segment_window_size then pop_window xs else x # xs)"

definition finish_segment :: "int \<Rightarrow> hls_segmenter \<Rightarrow> hls_segmenter" where
  "finish_segment end_pts_ns s =
     (if hs_current_segment s = [] then s
      else
        let duration1 =
              (case hs_segment_start_pts_ns s of
                 Some start \<Rightarrow>
                   if end_pts_ns \<ge> start then of_int (end_pts_ns - start) / 1000000000 else target_duration_seconds
               | None \<Rightarrow> target_duration_seconds);
            duration = (if duration1 \<le> 0 then target_duration_seconds else duration1);
            item = \<lparr>seg_sequence = hs_next_sequence s, seg_duration = duration,
                     seg_data = hs_current_segment s, seg_opener = hs_opener s\<rparr>
        in s\<lparr>hs_next_sequence := hs_next_sequence s + 1, hs_current_segment := [],
             hs_segments := pop_window (hs_segments s @ [item])\<rparr>)"

definition discard_segment :: "mux_answers \<Rightarrow> rat \<Rightarrow> hls_segmenter \<Rightarrow> hls_segmenter" where
  "discard_segment mux now s =
     (let (ok, s1) = recreate_own_muxer mux s;
          s2 = (if ok then s1 else s1\<lparr>hs_muxer := False, hs_ended_at := Some now\<rparr>)
      in s2\<lparr>hs_current_segment := [], hs_segment_start_pts_ns := None, hs_segment_max_pts_ns := 0,
            hs_waiting_for_key_frame := hs_has_video s2\<rparr>)"

text \<open>The part of \<open>on_frame\<close> from the call of the muxer on.\<close>

definition write_frame :: "mux_answers \<Rightarrow> rat \<Rightarrow> media_frame \<Rightarrow> hls_segmenter \<Rightarrow> hls_segmenter" where
  "write_frame mux now frame s =
     (let (result, current) = mpeg_ts_write mux (hs_current_segment s);
          s1 = s\<lparr>hs_current_segment := current\<rparr>
      in if result \<noteq> Ok then discard_segment mux now s1
         else s1\<lparr>hs_segment_max_pts_ns := max (hs_segment_max_pts_ns s1) (mf_pts_ns frame)\<rparr>)"

text \<open>The steps of \<open>on_frame\<close> before it: the segment's first time stamps, and the boundary test.\<close>

definition opened :: "media_frame \<Rightarrow> media_kind \<times> bool \<Rightarrow> hls_segmenter \<Rightarrow> hls_segmenter" where
  "opened frame opener s =
     (if hs_segment_start_pts_ns s = None
      then s\<lparr>hs_waiting_for_key_frame := False, hs_segment_start_pts_ns := Some (mf_pts_ns frame),
             hs_segment_max_pts_ns := mf_pts_ns frame, hs_opener := opener\<rparr>
      else s\<lparr>hs_waiting_for_key_frame := False\<rparr>)"

definition reopened :: "media_frame \<Rightarrow> media_kind \<times> bool \<Rightarrow> hls_segmenter \<Rightarrow> hls_segmenter" where
  "reopened frame opener s =
     s\<lparr>hs_segment_start_pts_ns := Some (mf_pts_ns frame),
       hs_segment_max_pts_ns := mf_pts_ns frame, hs_opener := opener\<rparr>"

definition segment_boundary :: "media_track \<Rightarrow> media_frame \<Rightarrow> hls_segmenter \<Rightarrow> bool" where
  "segment_boundary track frame s \<longleftrightarrow>
     (let elapsed_ns = mf_pts_ns frame - the (hs_segment_start_pts_ns s);
          target_ns = floor (target_duration_seconds * 1000000000)
      in (\<not> hs_has_video s \<or> (mt_kind track = Video \<and> mf_key_frame frame)) \<and> elapsed_ns \<ge> target_ns)"

text \<open>
  \<open>on_frame\<close>; the muxer is re-created at most twice in one call, with the answers \<open>mux1\<close> at
  the segment boundary and \<open>mux\<close> for the write and a discard after it.
\<close>

definition on_frame :: "mux_answers \<Rightarrow> mux_answers \<Rightarrow> rat \<Rightarrow> media_frame \<Rightarrow> hls_segmenter \<Rightarrow> hls_segmenter" where
  "on_frame mux1 mux now frame s =
     (if hs_ended_at s \<noteq> None then s
      else case map_of (hs_tracks s) (mf_track frame) of
        None \<Rightarrow> s
      | Some state \<Rightarrow>
          let track = ts_track state;
              opener = (mt_kind track, mf_key_frame frame)
          in if hs_waiting_for_key_frame s \<and> (mt_kind track \<noteq> Video \<or> \<not> mf_key_frame frame) then s
             else
               let s2 = opened frame opener s
               in if segment_boundary track frame s2 \<and> hs_current_segment s2 \<noteq> []
                  then case recreate_own_muxer mux1 (finish_segment (mf_pts_ns frame) s2) of
                         (False, s3) \<Rightarrow> s3\<lparr>hs_muxer := False, hs_ended_at := Some now\<rparr>
                       | (True, s3) \<Rightarrow> write_frame mux now frame (reopened frame opener s3)
                  else write_frame mux now frame s2)"

definition finish :: "rat \<Rightarrow> hls_segmenter \<Rightarrow> hls_segmenter" where
  "finish now s =
     (if hs_ended_at s \<noteq> None then s
      else let s1 = (if hs_current_segment s \<noteq> [] then finish_segment (hs_segment_max_pts_ns s) s else s)
           in s1\<lparr>hs_muxer := False, hs_ended_at := Some now\<rparr>)"

fun collect_tracks :: "media_track list \<Rightarrow> (track_id, track_state) smap \<Rightarrow> (track_id, track_state) smap" where
  "collect_tracks [] tracks = tracks"
| "collect_tracks (t # ts) tracks =
     (if mt_codec t = Opus \<or> mt_codec t = G711a \<or> mt_codec t = G711u then collect_tracks ts tracks
      else collect_tracks ts (fst (smap_emplace (mt_id t) \<lparr>ts_track = t, ts_stream_id = 0\<rparr> tracks)))"

definition startup :: "mux_answers \<Rightarrow> media_track list \<Rightarrow> hls_segmenter \<Rightarrow> bool \<times> hls_segmenter" where
  "startup mux source_tracks s =
     (let tracks = collect_tracks source_tracks [];
          has_video = list_ex (\<lambda>t. mt_kind t = Video \<and>
            \<not> (mt_codec t = Opus \<or> mt_codec t = G711a \<or> mt_codec t = G711u)) source_tracks
      in if tracks = [] then (False, s)
         else case recreate_muxer mux tracks s of
           (False, _, s') \<Rightarrow> (False, s')
         | (True, tracks', s') \<Rightarrow>
             (True, s'\<lparr>hs_tracks := tracks', hs_waiting_for_key_frame := has_video,
                       hs_has_video := has_video, hs_source := True\<rparr>))"

definition hls_shutdown :: "rat \<Rightarrow> hls_segmenter \<Rightarrow> hls_segmenter" where
  "hls_shutdown now s = finish now (s\<lparr>hs_source := False\<rparr>)"

section \<open>What players read\<close>

datatype playlist_line =
    ExtM3u | ExtVersion nat | TargetDuration int | MediaSequence u64 | ExtInf rat | SegmentUri u64 | EndList

definition playlist :: "hls_segmenter \<Rightarrow> playlist_line list" where
  "playlist s =
     (let maximum_duration = fold (\<lambda>item m. max m (seg_duration item)) (hs_segments s) target_duration_seconds;
          first_sequence = (if hs_segments s = [] then hs_next_sequence s else seg_sequence (hd (hs_segments s)))
      in [ExtM3u, ExtVersion 3, TargetDuration (max 1 (ceiling maximum_duration)), MediaSequence first_sequence] @
         concat (map (\<lambda>item. [ExtInf (seg_duration item), SegmentUri (seg_sequence item)]) (hs_segments s)) @
         (if hs_ended_at s \<noteq> None then [EndList] else []))"

definition segment_buffer :: "u64 \<Rightarrow> hls_segmenter \<Rightarrow> bytes option" where
  "segment_buffer sequence s = map_option seg_data (find (\<lambda>item. seg_sequence item = sequence) (hs_segments s))"

definition has_segments :: "hls_segmenter \<Rightarrow> bool" where
  "has_segments s \<longleftrightarrow> hs_segments s \<noteq> []"

text \<open>Every history of a segmenter that started.\<close>

inductive hls_reachable :: "hls_segmenter \<Rightarrow> bool" where
  hls_started: "startup mux tracks new_hls_segmenter = (True, s) \<Longrightarrow> hls_reachable s"
| hls_frame: "hls_reachable s \<Longrightarrow> hls_reachable (on_frame mux1 mux now frame s)"
| hls_end: "hls_reachable s \<Longrightarrow> hls_reachable (finish now s)"
| hls_stop: "hls_reachable s \<Longrightarrow> hls_reachable (hls_shutdown now s)"

section \<open>The directory of segmenters\<close>

text \<open>\<open>media/hls/hls.cpp\<close>: the process-wide map from stream ids to segmenters.\<close>

type_synonym hls_state = "(string, hls_segmenter) smap"

definition ended_retention :: rat where
  "ended_retention = target_duration_seconds * of_nat segment_window_size"

definition expired :: "rat \<Rightarrow> hls_segmenter \<Rightarrow> bool" where
  "expired now s \<longleftrightarrow> (case hs_ended_at s of None \<Rightarrow> False | Some ended_at \<Rightarrow> now - ended_at \<ge> ended_retention)"

definition remove_expired_segmenters :: "rat \<Rightarrow> hls_state \<Rightarrow> hls_state" where
  "remove_expired_segmenters now segmenters = filter (\<lambda>(stream_id, s). \<not> expired now s) segmenters"

definition get_or_create ::
  "mux_answers \<Rightarrow> rat \<Rightarrow> string \<Rightarrow> media_track list \<Rightarrow> hls_state \<Rightarrow> hls_segmenter option \<times> hls_state" where
  "get_or_create mux now stream_id tracks segmenters0 =
     (let segmenters = remove_expired_segmenters now segmenters0
      in case map_of segmenters stream_id of
           Some existing \<Rightarrow> (Some existing, segmenters)
         | None \<Rightarrow>
             (case startup mux tracks new_hls_segmenter of
                (False, _) \<Rightarrow> (None, segmenters)
              | (True, segmenter) \<Rightarrow> (Some segmenter, fst (smap_emplace stream_id segmenter segmenters))))"

text \<open>\<open>shutdown\<close>: the segmenters it stopped, and the empty directory.\<close>

definition hls_shutdown_all :: "rat \<Rightarrow> hls_state \<Rightarrow> hls_segmenter list \<times> hls_state" where
  "hls_shutdown_all now segmenters = (map (hls_shutdown now \<circ> snd) segmenters, [])"

section \<open>The invariant of a segmenter\<close>

text \<open>\<open>numbered n segs\<close>: the sequence numbers are consecutive and \<open>n\<close> is the next one.\<close>

definition numbered :: "u64 \<Rightarrow> segment list \<Rightarrow> bool" where
  "numbered n segs \<longleftrightarrow> (\<forall>i < length segs. seg_sequence (segs ! i) = n - of_nat (length segs - i))"

definition segment_ok :: "bool \<Rightarrow> segment \<Rightarrow> bool" where
  "segment_ok has_video item \<longleftrightarrow>
     0 < seg_duration item \<and> seg_data item \<noteq> [] \<and> length (seg_data item) \<le> max_segment_bytes \<and>
     (has_video \<longrightarrow> seg_opener item = (Video, True))"

definition window_ok :: "hls_segmenter \<Rightarrow> bool" where
  "window_ok s \<longleftrightarrow>
     length (hs_segments s) \<le> segment_window_size \<and> numbered (hs_next_sequence s) (hs_segments s) \<and>
     list_all (segment_ok (hs_has_video s)) (hs_segments s)"

definition current_ok :: "hls_segmenter \<Rightarrow> bool" where
  "current_ok s \<longleftrightarrow>
     length (hs_current_segment s) \<le> max_segment_bytes \<and>
     (hs_segment_start_pts_ns s = None \<longrightarrow> hs_current_segment s = []) \<and>
     (hs_has_video s \<longrightarrow> (if hs_segment_start_pts_ns s = None then hs_waiting_for_key_frame s
                         else hs_opener s = (Video, True)))"

definition hls_inv :: "hls_segmenter \<Rightarrow> bool" where
  "hls_inv s \<longleftrightarrow> window_ok s \<and> current_ok s \<and> (hs_ended_at s = None \<longrightarrow> hs_muxer s)"

subsection \<open>The window\<close>

lemma pop_window_drop: "pop_window xs = drop (length xs - segment_window_size) xs"
  by (induction xs) (auto simp: Suc_diff_le not_less_eq)

lemma numbered_drop: "numbered n xs \<Longrightarrow> numbered n (drop k xs)"
  by (auto simp: numbered_def)

lemma numbered_snoc:
  assumes "numbered n xs" "seg_sequence item = n"
  shows "numbered (n + 1) (xs @ [item])"
  using assms by (auto simp: numbered_def nth_append less_Suc_eq Suc_diff_le)

lemma of_nat_u64_inj: "(of_nat a :: u64) = of_nat b \<Longrightarrow> a < 2 ^ 64 \<Longrightarrow> b < 2 ^ 64 \<Longrightarrow> a = b"
  by (drule arg_cong [of _ _ unat]) (simp add: unat_of_nat)

lemma numbered_distinct:
  assumes "numbered n xs" "length xs < 2 ^ 64"
  shows "distinct (map seg_sequence xs)"
proof -
  have "seg_sequence (xs ! i) \<noteq> seg_sequence (xs ! j)" if "i < length xs" "j < length xs" "i \<noteq> j" for i j
  proof
    assume "seg_sequence (xs ! i) = seg_sequence (xs ! j)"
    with that assms have "(of_nat (length xs - i) :: u64) = of_nat (length xs - j)"
      by (simp add: numbered_def)
    moreover have "length xs - i < 2 ^ 64" "length xs - j < 2 ^ 64" using assms(2) by auto
    ultimately have "length xs - i = length xs - j" by (rule of_nat_u64_inj)
    with that show False by auto
  qed
  then show ?thesis by (auto simp: distinct_conv_nth)
qed

lemma numbered_below:
  assumes "numbered n xs" "length xs < 2 ^ 64"
  shows "n \<notin> seg_sequence ` set xs"
proof
  assume "n \<in> seg_sequence ` set xs"
  then obtain i where i: "i < length xs" "seg_sequence (xs ! i) = n" by (auto simp: in_set_conv_nth)
  have "seg_sequence (xs ! i) = n - of_nat (length xs - i)" using assms(1) i(1) by (simp only: numbered_def)
  then have "(of_nat (length xs - i) :: u64) = of_nat 0" unfolding i(2) by (simp only: eq_diff_eq) simp
  then have "length xs - i = 0" by (rule of_nat_u64_inj) (use assms in auto)
  with i show False by simp
qed

lemma window_ok_drop_snoc:
  assumes "window_ok s" "seg_sequence item = hs_next_sequence s" "segment_ok (hs_has_video s) item"
  shows "window_ok (s\<lparr>hs_next_sequence := hs_next_sequence s + 1,
                     hs_segments := pop_window (hs_segments s @ [item])\<rparr>)"
  using assms
  by (auto simp: window_ok_def pop_window_drop list_all_iff simp del: drop_append
      intro!: numbered_drop numbered_snoc dest!: in_set_dropD)

lemma window_ok_cong:
  "hs_segments s' = hs_segments s \<Longrightarrow> hs_next_sequence s' = hs_next_sequence s \<Longrightarrow>
   hs_has_video s' = hs_has_video s \<Longrightarrow> window_ok s' = window_ok s"
  by (simp add: window_ok_def)

lemma finish_segment_frame [simp]:
  "hs_has_video (finish_segment e s) = hs_has_video s" "hs_ended_at (finish_segment e s) = hs_ended_at s"
  "hs_muxer (finish_segment e s) = hs_muxer s" "hs_current_segment (finish_segment e s) = []"
  "hs_segment_start_pts_ns (finish_segment e s) = hs_segment_start_pts_ns s"
  "hs_opener (finish_segment e s) = hs_opener s"
  "hs_waiting_for_key_frame (finish_segment e s) = hs_waiting_for_key_frame s"
  "hs_tracks (finish_segment e s) = hs_tracks s"
  by (simp_all add: finish_segment_def Let_def)

lemma finish_segment_window:
  assumes "window_ok s" "current_ok s"
  shows "window_ok (finish_segment e s)"
proof (cases "hs_current_segment s = []")
  case False
  define start where "start = the (hs_segment_start_pts_ns s)"
  have start: "hs_segment_start_pts_ns s = Some start"
    using assms(2) False by (auto simp: current_ok_def start_def)
  define d where "d = (if start \<le> e then of_int (e - start) / 1000000000 else target_duration_seconds :: rat)"
  define item where "item = \<lparr>seg_sequence = hs_next_sequence s,
    seg_duration = (if d \<le> 0 then target_duration_seconds else d),
    seg_data = hs_current_segment s, seg_opener = hs_opener s\<rparr>"
  have "segment_ok (hs_has_video s) item"
    using assms(2) False start by (auto simp: segment_ok_def item_def target_duration_seconds_def current_ok_def)
  then have "window_ok (s\<lparr>hs_next_sequence := hs_next_sequence s + 1,
                         hs_segments := pop_window (hs_segments s @ [item])\<rparr>)"
    by (intro window_ok_drop_snoc assms) (simp_all add: item_def)
  moreover have "finish_segment e s = s\<lparr>hs_next_sequence := hs_next_sequence s + 1, hs_current_segment := [],
                         hs_segments := pop_window (hs_segments s @ [item])\<rparr>"
    using False start by (simp add: finish_segment_def item_def d_def Let_def)
  ultimately show ?thesis by (simp add: window_ok_def)
qed (use assms in \<open>simp add: finish_segment_def\<close>)

subsection \<open>The operations keep the invariant\<close>

lemma write_packets_bound:
  "length current \<le> max_segment_bytes \<Longrightarrow> length (snd (write_packets ps current)) \<le> max_segment_bytes"
  by (induction ps current rule: write_packets.induct) (auto simp: ts_write_def)

lemma write_packets_grows: "\<exists>ys. snd (write_packets ps current) = current @ ys"
  by (induction ps current rule: write_packets.induct) (auto simp: ts_write_def)

lemma mpeg_ts_write_bound:
  "length current \<le> max_segment_bytes \<Longrightarrow> length (snd (mpeg_ts_write mux current)) \<le> max_segment_bytes"
  using write_packets_bound [of current "mux_packets mux"]
  by (auto simp: mpeg_ts_write_def split: prod.splits write_result.splits)

lemma recreate_own_muxer_frame:
  assumes "recreate_own_muxer mux s = (ok, s')"
  shows "\<exists>tracks. s' = s\<lparr>hs_muxer := (ok \<or> hs_muxer s), hs_tracks := tracks\<rparr>"
  using assms
  by (intro exI [of _ "hs_tracks s'"])
     (auto simp: recreate_own_muxer_def recreate_muxer_def split: if_splits prod.splits bool.splits)

lemma discard_segment_inv:
  assumes "window_ok s" "hs_ended_at s = None" "hs_muxer s"
  shows "hls_inv (discard_segment mux now s)"
proof -
  obtain ok s1 where r: "recreate_own_muxer mux s = (ok, s1)" by fastforce
  from recreate_own_muxer_frame [OF r]
  obtain tracks where "s1 = s\<lparr>hs_muxer := (ok \<or> hs_muxer s), hs_tracks := tracks\<rparr>" by blast
  with assms r show ?thesis
    by (auto simp: discard_segment_def hls_inv_def window_ok_def current_ok_def)
qed

lemma write_frame_inv:
  assumes "hls_inv s" "hs_ended_at s = None" "hs_segment_start_pts_ns s \<noteq> None"
  shows "hls_inv (write_frame mux now frame s)"
proof -
  obtain result current where r: "mpeg_ts_write mux (hs_current_segment s) = (result, current)" by fastforce
  have bound: "length current \<le> max_segment_bytes"
    using mpeg_ts_write_bound [of "hs_current_segment s" mux] assms(1) r by (simp add: hls_inv_def current_ok_def)
  show ?thesis
  proof (cases "result = Ok")
    case True
    with assms bound r show ?thesis by (auto simp: write_frame_def hls_inv_def window_ok_def current_ok_def)
  next
    case False
    have "hls_inv (discard_segment mux now (s\<lparr>hs_current_segment := current\<rparr>))"
      using assms by (intro discard_segment_inv) (simp_all add: hls_inv_def window_ok_def)
    with False r show ?thesis by (simp add: write_frame_def)
  qed
qed

text \<open>The four ways \<open>on_frame\<close> ends.\<close>

lemma on_frame_cases [consumes 1, case_names ignored written boundary failed]:
  assumes "on_frame mux1 mux now frame s = s'"
  obtains
    (ignored) "s' = s"
  | (written) state opener where "hs_ended_at s = None" "map_of (hs_tracks s) (mf_track frame) = Some state"
      "opener = (mt_kind (ts_track state), mf_key_frame frame)"
      "hs_waiting_for_key_frame s \<longrightarrow> opener = (Video, True)"
      "s' = write_frame mux now frame (opened frame opener s)"
  | (boundary) state opener s3 where "hs_ended_at s = None" "map_of (hs_tracks s) (mf_track frame) = Some state"
      "opener = (mt_kind (ts_track state), mf_key_frame frame)"
      "hs_waiting_for_key_frame s \<longrightarrow> opener = (Video, True)" "hs_has_video s \<longrightarrow> opener = (Video, True)"
      "recreate_own_muxer mux1 (finish_segment (mf_pts_ns frame) (opened frame opener s)) = (True, s3)"
      "s' = write_frame mux now frame (reopened frame opener s3)"
  | (failed) opener s3 where "hs_ended_at s = None"
      "hs_waiting_for_key_frame s \<longrightarrow> opener = (Video, True)"
      "recreate_own_muxer mux1 (finish_segment (mf_pts_ns frame) (opened frame opener s)) = (False, s3)"
      "s' = s3\<lparr>hs_muxer := False, hs_ended_at := Some now\<rparr>"
proof -
  consider "hs_ended_at s \<noteq> None" | "map_of (hs_tracks s) (mf_track frame) = None"
    | state where "hs_ended_at s = None" "map_of (hs_tracks s) (mf_track frame) = Some state"
        "hs_waiting_for_key_frame s" "\<not> (mt_kind (ts_track state) = Video \<and> mf_key_frame frame)"
    | state where "hs_ended_at s = None" "map_of (hs_tracks s) (mf_track frame) = Some state"
        "hs_waiting_for_key_frame s \<longrightarrow> mt_kind (ts_track state) = Video \<and> mf_key_frame frame"
    by (cases "map_of (hs_tracks s) (mf_track frame)") auto
  then show thesis
  proof cases
    case 4
    let ?opener = "(mt_kind (ts_track state), mf_key_frame frame)"
    define s2 where "s2 = opened frame ?opener s"
    obtain ok s3 where r: "recreate_own_muxer mux1 (finish_segment (mf_pts_ns frame) s2) = (ok, s3)" by fastforce
    have hv: "hs_has_video s2 = hs_has_video s" by (simp add: s2_def opened_def)
    define bd where "bd \<longleftrightarrow> segment_boundary (ts_track state) frame s2 \<and> hs_current_segment s2 \<noteq> []"
    have nw: "(hs_waiting_for_key_frame s \<and> (mt_kind (ts_track state) \<noteq> Video \<or> \<not> mf_key_frame frame)) = False"
      using 4(3) by blast
    have s': "s' = (if bd then if ok then write_frame mux now frame (reopened frame ?opener s3)
                     else s3\<lparr>hs_muxer := False, hs_ended_at := Some now\<rparr>
                else write_frame mux now frame s2)"
      unfolding assms [symmetric] on_frame_def Let_def 4(2) option.case nw if_False
        s2_def [symmetric] bd_def [symmetric] r
      using 4(1) by (cases ok) simp_all
    have w: "hs_waiting_for_key_frame s \<longrightarrow> ?opener = (Video, True)" using 4(3) by simp
    have v: "bd \<Longrightarrow> hs_has_video s \<longrightarrow> ?opener = (Video, True)"
      by (auto simp: bd_def segment_boundary_def Let_def hv)
    consider "\<not> bd" | "bd" "ok" | "bd" "\<not> ok" by blast
    then show thesis
    proof cases
      case 1
      with s' show thesis by (intro that(2) [OF 4(1,2) refl w]) (simp add: s2_def)
    next
      case 2
      with r s' show thesis by (intro that(3) [OF 4(1,2) refl w v [OF 2(1)]]) (simp_all add: s2_def)
    next
      case 3
      with r s' show thesis by (intro that(4) [OF 4(1) w]) (simp_all add: s2_def)
    qed
  qed (use assms that(1) in \<open>auto simp: on_frame_def Let_def\<close>)
qed

lemma opened_inv:
  assumes "hls_inv s" "hs_waiting_for_key_frame s \<longrightarrow> opener = (Video, True)"
  shows "hls_inv (opened frame opener s)" "hs_segment_start_pts_ns (opened frame opener s) \<noteq> None"
    "hs_ended_at (opened frame opener s) = hs_ended_at s" "hs_has_video (opened frame opener s) = hs_has_video s"
  using assms by (auto simp: opened_def hls_inv_def window_ok_def current_ok_def)

lemma finished_recreated:
  assumes "hls_inv s" "recreate_own_muxer mux (finish_segment e s) = (ok, s3)"
  shows "window_ok s3" "current_ok s3" "hs_ended_at s3 = hs_ended_at s" "hs_has_video s3 = hs_has_video s"
    "hs_current_segment s3 = []" "ok \<Longrightarrow> hs_muxer s3"
proof -
  from recreate_own_muxer_frame [OF assms(2)]
  obtain tracks where s3: "s3 = (finish_segment e s)\<lparr>hs_muxer := (ok \<or> hs_muxer (finish_segment e s)), hs_tracks := tracks\<rparr>"
    by blast
  have "window_ok (finish_segment e s)" using assms(1) by (simp add: hls_inv_def finish_segment_window)
  then show "window_ok s3" by (simp add: s3 window_ok_def)
  show "current_ok s3" using assms(1) by (auto simp: s3 current_ok_def hls_inv_def)
  show "hs_ended_at s3 = hs_ended_at s" "hs_has_video s3 = hs_has_video s" "hs_current_segment s3 = []"
    "ok \<Longrightarrow> hs_muxer s3" by (simp_all add: s3)
qed

lemma on_frame_inv:
  assumes inv: "hls_inv s" and run: "on_frame mux1 mux now frame s = s'"
  shows "hls_inv s'"
  using run
proof (cases rule: on_frame_cases)
  case (boundary state opener s3)
  note o = opened_inv [OF inv boundary(4), of frame]
  note r = finished_recreated [OF o(1) boundary(6)]
  have "hls_inv (reopened frame opener s3)"
    using r boundary(1,5) o(3,4) by (simp add: reopened_def hls_inv_def window_ok_def current_ok_def)
  then show ?thesis using boundary(1,7) r(3) o(3) by (simp add: write_frame_inv reopened_def)
next
  case (failed opener s3)
  note r = finished_recreated [OF opened_inv(1) [OF inv failed(2)] failed(3)]
  then show ?thesis using failed(4) by (simp add: hls_inv_def window_ok_def current_ok_def)
qed (use inv in \<open>simp_all add: write_frame_inv opened_inv\<close>)

lemma finish_inv: "hls_inv s \<Longrightarrow> hls_inv (finish now s)"
  by (auto simp: finish_def Let_def hls_inv_def current_ok_def finish_segment_window
      window_ok_cong [of "s\<lparr>hs_muxer := False, hs_ended_at := Some now\<rparr>" s]
      window_ok_cong [of "(finish_segment e s)\<lparr>hs_muxer := False, hs_ended_at := Some now\<rparr>" "finish_segment e s" for e])

lemma hls_reachable_inv: "hls_reachable s \<Longrightarrow> hls_inv s"
proof (induction rule: hls_reachable.induct)
  case (hls_started mux tracks s)
  then show ?case
    by (auto simp: startup_def Let_def recreate_muxer_def new_hls_segmenter_def hls_inv_def window_ok_def
        current_ok_def numbered_def split: if_splits prod.splits bool.splits)
next
  case (hls_stop s now)
  then have "hls_inv (s\<lparr>hs_source := False\<rparr>)" by (simp add: hls_inv_def window_ok_def current_ok_def)
  then show ?case by (simp add: hls_shutdown_def finish_inv)
qed (simp_all add: on_frame_inv [OF _ refl] finish_inv)

section \<open>What players see\<close>

lemma find_key:
  "distinct (map f xs) \<Longrightarrow> find (\<lambda>x. f x = q) xs = Some y \<longleftrightarrow> y \<in> set xs \<and> f y = q"
  by (induction xs) (auto simp: image_iff)

lemma segment_buffer_iff:
  assumes "window_ok s"
  shows "segment_buffer q s = Some d \<longleftrightarrow> (\<exists>item \<in> set (hs_segments s). seg_sequence item = q \<and> seg_data item = d)"
proof -
  have "distinct (map seg_sequence (hs_segments s))"
    using assms by (intro numbered_distinct) (auto simp: window_ok_def segment_window_size_def)
  then have "find (\<lambda>item. seg_sequence item = q) (hs_segments s) = Some item \<longleftrightarrow>
    item \<in> set (hs_segments s) \<and> seg_sequence item = q" for item
    by (rule find_key)
  then show ?thesis by (auto simp: segment_buffer_def)
qed

lemma segment_buffer_None_iff: "segment_buffer q s = None \<longleftrightarrow> q \<notin> seg_sequence ` set (hs_segments s)"
  by (auto simp: segment_buffer_def find_None_iff)

lemma finish_segment_new:
  assumes "item \<in> set (hs_segments (finish_segment e s))"
  shows "item \<in> set (hs_segments s) \<or> seg_sequence item = hs_next_sequence s"
  using assms
  by (auto simp: finish_segment_def Let_def pop_window_drop simp del: drop_append split: if_splits dest!: in_set_dropD)

lemma finish_segment_buffer:
  assumes "window_ok s" "current_ok s" "segment_buffer q s = Some d" "segment_buffer q (finish_segment e s) = Some d'"
  shows "d' = d"
proof -
  obtain item' where i': "item' \<in> set (hs_segments (finish_segment e s))" "seg_sequence item' = q" "seg_data item' = d'"
    using assms segment_buffer_iff [OF finish_segment_window] by blast
  have "hs_next_sequence s \<notin> seg_sequence ` set (hs_segments s)"
    using assms(1) by (intro numbered_below) (auto simp: window_ok_def segment_window_size_def)
  moreover have "q \<in> seg_sequence ` set (hs_segments s)"
    using assms(3) segment_buffer_None_iff [of q s] by auto
  ultimately have "item' \<in> set (hs_segments s)" using finish_segment_new [OF i'(1)] i'(2) by auto
  with i' assms(1,3) segment_buffer_iff [OF assms(1), of q d'] show ?thesis by auto
qed

lemma segment_buffer_cong: "hs_segments s' = hs_segments s \<Longrightarrow> segment_buffer q s' = segment_buffer q s"
  by (simp add: segment_buffer_def)

lemma write_frame_segments: "hs_segments (write_frame mux now frame s) = hs_segments s"
proof -
  obtain result current where r: "mpeg_ts_write mux (hs_current_segment s) = (result, current)" by fastforce
  obtain ok s1 where r1: "recreate_own_muxer mux (s\<lparr>hs_current_segment := current\<rparr>) = (ok, s1)" by fastforce
  from recreate_own_muxer_frame [OF r1] have "hs_segments s1 = hs_segments s" by auto
  with r r1 show ?thesis by (simp add: write_frame_def discard_segment_def Let_def)
qed

lemma on_frame_segments:
  assumes "on_frame mux1 mux now frame s = s'"
  shows "hs_segments s' = hs_segments s \<or>
    (\<exists>opener. (hs_waiting_for_key_frame s \<longrightarrow> opener = (Video, True)) \<and>
       hs_segments s' = hs_segments (finish_segment (mf_pts_ns frame) (opened frame opener s)))"
  using assms
proof (cases rule: on_frame_cases)
  case (written state opener)
  then show ?thesis by (simp add: write_frame_segments opened_def)
next
  case (boundary state opener s3)
  from recreate_own_muxer_frame [OF boundary(6)] boundary(4,7) show ?thesis
    by (intro disjI2 exI [of _ opener] conjI) (auto simp: write_frame_segments reopened_def)
next
  case (failed opener s3)
  from recreate_own_muxer_frame [OF failed(3)] failed(2,4) show ?thesis
    by (intro disjI2 exI [of _ opener] conjI) auto
qed simp

lemma playlist_uris: "SegmentUri q \<in> set (playlist s) \<longleftrightarrow> q \<in> seg_sequence ` set (hs_segments s)"
  by (auto simp: playlist_def Let_def)

lemma playlist_durations: "ExtInf d \<in> set (playlist s) \<longleftrightarrow> d \<in> seg_duration ` set (hs_segments s)"
  by (auto simp: playlist_def Let_def)

lemma fold_max_upper:
  "(m::rat) \<le> fold (\<lambda>item m. max m (seg_duration item)) segs m \<and>
   (\<forall>item \<in> set segs. seg_duration item \<le> fold (\<lambda>item m. max m (seg_duration item)) segs m)"
proof (induction segs arbitrary: m)
  case (Cons a segs)
  from Cons.IH [of "max m (seg_duration a)"] show ?case by simp
qed simp

lemma playlist_target:
  "TargetDuration t \<in> set (playlist s) \<Longrightarrow> item \<in> set (hs_segments s) \<Longrightarrow> seg_duration item \<le> of_int t"
  using fold_max_upper [of target_duration_seconds "hs_segments s"]
  by (auto simp: playlist_def Let_def max_def intro: order_trans le_of_int_ceiling split: if_splits)

text \<open>The history used to evaluate the properties: one video track, two key frames two seconds apart.\<close>

definition demo_mux :: mux_answers where
  "demo_mux = \<lparr>mux_create = True, mux_add_stream = (\<lambda>_. 256), mux_packets = [[71, 64]], mux_result = 0\<rparr>"

definition demo_tracks :: "media_track list" where
  "demo_tracks = [\<lparr>mt_id = 1, mt_kind = Video, mt_codec = H264, mt_clock_rate = 90000,
                   mt_channel_count = 0, mt_codec_config = []\<rparr>]"

definition demo_frame :: "int \<Rightarrow> media_frame" where
  "demo_frame pts = \<lparr>mf_track = 1, mf_dts_ns = pts, mf_pts_ns = pts, mf_key_frame = True,
                     mf_payload = Some [0], mf_length_prefixed = False\<rparr>"

definition demo_segmenter :: hls_segmenter where
  "demo_segmenter =
     on_frame demo_mux demo_mux 0 (demo_frame 2000000000)
       (on_frame demo_mux demo_mux 0 (demo_frame 0) (snd (startup demo_mux demo_tracks new_hls_segmenter)))"

lemma demo_reachable: "hls_reachable demo_segmenter"
proof -
  have "startup demo_mux demo_tracks new_hls_segmenter =
    (True, snd (startup demo_mux demo_tracks new_hls_segmenter))"
    by (simp add: startup_def demo_tracks_def demo_mux_def recreate_muxer_def smap_emplace_def)
  then show ?thesis unfolding demo_segmenter_def by (intro hls_frame hls_started)
qed

lemma demo_segments:
  "hs_segments demo_segmenter = [\<lparr>seg_sequence = 0, seg_duration = 2, seg_data = [71, 64], seg_opener = (Video, True)\<rparr>]"
  "hs_has_video demo_segmenter"
  by (simp_all add: demo_segmenter_def startup_def demo_tracks_def demo_mux_def recreate_muxer_def
      recreate_own_muxer_def smap_emplace_def on_frame_def demo_frame_def new_hls_segmenter_def Let_def opened_def
      reopened_def segment_boundary_def target_duration_seconds_def finish_segment_def write_frame_def
      mpeg_ts_write_def ts_write_def max_segment_bytes_def segment_window_size_def)

text \<open>
  C32: Whatever frames arrive and whatever the TS muxer answers, the window of a segmenter holds
  at most six segments with consecutive sequence numbers ending just below the next one; every
  segment has data, a positive duration and at most 16 MiB, and so has the unfinished one.
\<close>

theorem hls_window:
  assumes "hls_reachable s"
  shows "length (hs_segments s) \<le> 6 \<and>
    (\<forall>i < length (hs_segments s).
       seg_sequence (hs_segments s ! i) = hs_next_sequence s - of_nat (length (hs_segments s) - i)) \<and>
    (\<forall>item \<in> set (hs_segments s).
       0 < seg_duration item \<and> seg_data item \<noteq> [] \<and> length (seg_data item) \<le> 16777216) \<and>
    length (hs_current_segment s) \<le> 16777216"
  using hls_reachable_inv [OF assms]
  by (simp add: hls_inv_def window_ok_def current_ok_def numbered_def segment_ok_def list_all_iff
      segment_window_size_def max_segment_bytes_def)

theorem hls_window_witness:
  "length (hs_segments demo_segmenter) = 1 \<and> length (hs_current_segment demo_segmenter) \<le> 16777216"
  using hls_window [OF demo_reachable] by (simp add: demo_segments)

text \<open>
  C31: When the stream has video, every published segment starts with a video key frame, so that
  a player can join at any segment; a write failure never breaks this (the segmenter waits for the
  next key frame).
\<close>

theorem hls_segments_start_with_key_frame:
  assumes "hls_reachable s" "hs_has_video s" "item \<in> set (hs_segments s)"
  shows "seg_opener item = (Video, True)"
  using hls_reachable_inv [OF assms(1)] assms(2,3)
  by (simp add: hls_inv_def window_ok_def segment_ok_def list_all_iff)

theorem hls_segments_start_with_key_frame_witness:
  "list_all (\<lambda>item. seg_opener item = (Video, True)) (hs_segments demo_segmenter)"
  using hls_segments_start_with_key_frame [OF demo_reachable demo_segments(2)] by (simp add: list_all_iff)





section \<open>The directory\<close>

lemma remove_expired_find:
  assumes "smap_ok d"
  shows "map_of (remove_expired_segmenters now d) k =
    (case map_of d k of Some s \<Rightarrow> if expired now s then None else Some s | None \<Rightarrow> None)"
  using smap_ok_distinct [OF assms]
  by (induction d) (auto simp: remove_expired_segmenters_def map_of_eq_None_iff split: option.splits intro: rev_image_eqI)

lemma smap_ok_filter: "smap_ok d \<Longrightarrow> smap_ok (filter P d)"
  by (induction d) auto

text \<open>
  A request for a stream's HLS output returns the running segmenter of that stream, or one
  that ended less than 12 seconds ago; after that the next request starts a new one. Every other
  stream's segmenter stays unless it has expired.
\<close>

lemma hls_get_or_create:
  assumes "smap_ok d" "startup mux tracks new_hls_segmenter = (True, fresh)"
  shows "case get_or_create mux now stream_id tracks d of (r, d') \<Rightarrow>
    smap_ok d' \<and> map_of d' stream_id = r \<and>
    r = Some (case map_of d stream_id of
                Some s \<Rightarrow> (case hs_ended_at s of
                             Some ended_at \<Rightarrow> if now - ended_at \<ge> 12 then fresh else s
                           | None \<Rightarrow> s)
              | None \<Rightarrow> fresh) \<and>
    (\<forall>k. k \<noteq> stream_id \<longrightarrow>
       map_of d' k = (case map_of d k of Some s \<Rightarrow> if expired now s then None else Some s | None \<Rightarrow> None))"
proof -
  define d1 where "d1 = remove_expired_segmenters now d"
  have ok: "smap_ok d1" using assms(1) by (simp add: d1_def remove_expired_segmenters_def smap_ok_filter)
  have f: "map_of d1 k = (case map_of d k of Some s \<Rightarrow> if expired now s then None else Some s | None \<Rightarrow> None)" for k
    by (simp add: d1_def remove_expired_find [OF assms(1)])
  show ?thesis
  proof (cases "map_of d1 stream_id")
    case None
    with f ok assms(2) show ?thesis
      by (auto simp: get_or_create_def Let_def d1_def [symmetric] smap_laws expired_def ended_retention_def
          target_duration_seconds_def segment_window_size_def split: option.splits if_splits)
  next
    case (Some s)
    with f ok show ?thesis
      by (auto simp: get_or_create_def Let_def d1_def [symmetric] expired_def ended_retention_def
          target_duration_seconds_def segment_window_size_def split: option.splits if_splits)
  qed
qed

end
