(* ===== verification/Rtp_Packet.thy ===== *)
theory Rtp_Packet
  imports Prelude
begin

text \<open>
  \<open>third/ireader/librtp/source/rtp-packet.c\<close> with the bit fields of \<open>rtp-header.h\<close> and the
  byte writers of \<open>rtp-util.h\<close>: reading and writing RTP packets. The library is built with
  \<open>NDEBUG\<close>, so that its assertions do nothing. The bit fields are words of their width, the
  three one-bit flags booleans; \<open>csrc\<close> has sixteen entries; the \<open>payload\<close> and \<open>extension\<close>
  pointers are the bytes they point to.
\<close>

record rtp_header =
  rtp_v :: "2 word"
  rtp_p :: bool
  rtp_x :: bool
  rtp_cc :: "4 word"
  rtp_m :: bool
  rtp_pt :: "7 word"
  rtp_seq :: u16
  rtp_timestamp :: u32
  rtp_ssrc :: u32

record rtp_packet =
  pkt_rtp :: rtp_header
  pkt_csrc :: "u32 list"
  pkt_extension :: bytes
  pkt_extlen :: u16
  pkt_extprofile :: u16
  pkt_payload :: bytes

definition RTP_VERSION :: "2 word" where "RTP_VERSION = 2"
definition RTP_FIXED_HEADER :: nat where "RTP_FIXED_HEADER = 12"

definition RTP_V :: "u32 \<Rightarrow> 2 word" where "RTP_V v = ucast (drop_bit 30 v AND 3)"
definition RTP_P :: "u32 \<Rightarrow> bool" where "RTP_P v \<longleftrightarrow> drop_bit 29 v AND 1 = 1"
definition RTP_X :: "u32 \<Rightarrow> bool" where "RTP_X v \<longleftrightarrow> drop_bit 28 v AND 1 = 1"
definition RTP_CC :: "u32 \<Rightarrow> 4 word" where "RTP_CC v = ucast (drop_bit 24 v AND 15)"
definition RTP_M :: "u32 \<Rightarrow> bool" where "RTP_M v \<longleftrightarrow> drop_bit 23 v AND 1 = 1"
definition RTP_PT :: "u32 \<Rightarrow> 7 word" where "RTP_PT v = ucast (drop_bit 16 v AND 127)"
definition RTP_SEQ :: "u32 \<Rightarrow> u16" where "RTP_SEQ v = ucast (drop_bit 0 v AND 65535)"

lemmas rtp_field_defs = RTP_V_def RTP_P_def RTP_X_def RTP_CC_def RTP_M_def RTP_PT_def RTP_SEQ_def

text \<open>The fixed header.\<close>

definition read_header :: "bytes \<Rightarrow> rtp_header" where
  "read_header data =
     (let v = be32_at data 0
      in \<lparr>rtp_v = RTP_V v, rtp_p = RTP_P v, rtp_x = RTP_X v, rtp_cc = RTP_CC v, rtp_m = RTP_M v,
          rtp_pt = RTP_PT v, rtp_seq = RTP_SEQ v, rtp_timestamp = be32_at data 4, rtp_ssrc = be32_at data 8\<rparr>)"

definition rtp_packet_deserialize :: "bytes \<Rightarrow> rtp_packet option" where
  "rtp_packet_deserialize data =
     (if length data < RTP_FIXED_HEADER then None
      else
        let h = read_header data;
            cc = unat (rtp_cc h);
            hdrlen = RTP_FIXED_HEADER + cc * 4
        in if rtp_v h \<noteq> RTP_VERSION \<or>
              length data < hdrlen + (if rtp_x h then 4 else 0) + (if rtp_p h then 1 else 0) then None
           else
             let csrc = map (\<lambda>i. be32_at data (12 + i * 4)) [0..<cc] @ replicate (16 - cc) 0;
                 payloadlen = length data - hdrlen;
                 extprofile = (if rtp_x h then be16_at data hdrlen else 0);
                 extlen = (if rtp_x h then be16_at data (hdrlen + 2) * 4 else 0);
                 skip = (if rtp_x h then unat extlen + 4 else 0);
                 padding = (if rtp_p h then unat (byte_at data (length data - 1)) else 0)
             in if skip > payloadlen then None
                else if payloadlen - skip < padding then None
                else Some \<lparr>pkt_rtp = h, pkt_csrc = csrc,
                           pkt_extension = (if rtp_x h then take (unat extlen) (drop (hdrlen + 4) data) else []),
                           pkt_extlen = extlen, pkt_extprofile = extprofile,
                           pkt_payload = take (payloadlen - skip - padding) (drop (hdrlen + skip) data)\<rparr>)"

definition nbo_write_rtp_header :: "rtp_header \<Rightarrow> bytes" where
  "nbo_write_rtp_header h =
     [ucast ((push_bit 6 (ucast (rtp_v h)) OR push_bit 5 (of_bool (rtp_p h)) OR
              push_bit 4 (of_bool (rtp_x h)) OR ucast (rtp_cc h)) :: u32),
      ucast ((push_bit 7 (of_bool (rtp_m h)) OR ucast (rtp_pt h)) :: u32),
      ucast (drop_bit 8 (rtp_seq h)), ucast (rtp_seq h AND 0xff)] @
     be32_bytes (rtp_timestamp h) @ be32_bytes (rtp_ssrc h)"

text \<open>The header written into a buffer of \<open>bytes\<close> bytes, and its length.\<close>

definition rtp_packet_serialize_header :: "rtp_packet \<Rightarrow> nat \<Rightarrow> (bytes \<times> nat) option" where
  "rtp_packet_serialize_header pkt bytes =
     (let h = pkt_rtp pkt;
          cc = unat (rtp_cc h);
          extlen = unat (pkt_extlen pkt)
      in if rtp_v h \<noteq> RTP_VERSION \<or> extlen mod 4 \<noteq> 0 then None
         else
           let hdrlen = RTP_FIXED_HEADER + cc * 4 + (if rtp_x h then 4 else 0)
           in if bytes < hdrlen + extlen then None
              else Some (nbo_write_rtp_header h @ concat (map be32_bytes (take cc (pkt_csrc pkt))) @
                         (if rtp_x h
                          then be16_bytes (pkt_extprofile pkt) @ be16_bytes (pkt_extlen pkt div 4) @
                               take extlen (pkt_extension pkt)
                          else []),
                         hdrlen + extlen))"

definition rtp_packet_serialize :: "rtp_packet \<Rightarrow> nat \<Rightarrow> bytes option" where
  "rtp_packet_serialize pkt bytes =
     (case rtp_packet_serialize_header pkt bytes of
        None \<Rightarrow> None
      | Some (header, hdrlen) \<Rightarrow>
          if hdrlen < RTP_FIXED_HEADER \<or> hdrlen + length (pkt_payload pkt) > bytes then None
          else Some (header @ pkt_payload pkt))"

section \<open>Reading back the first word\<close>

definition first_word :: "u8 \<Rightarrow> u8 \<Rightarrow> u8 \<Rightarrow> u8 \<Rightarrow> u32" where
  "first_word b0 b1 b2 b3 = push_bit 24 (ucast b0) OR push_bit 16 (ucast b1) OR push_bit 8 (ucast b2) OR ucast b3"

lemma small_masks:
  "(3 :: 'a :: len word) = mask 2" "(15 :: 'a word) = mask 4" "(127 :: 'a word) = mask 7" "(65535 :: 'a word) = mask 16"
  by (simp_all add: mask_eq_exp_minus_1)

lemma and_one_iff: "(w :: 'a :: len word) AND 1 = 1 \<longleftrightarrow> bit w 0"
  by (simp add: and_one_eq mod_2_eq_odd bit_0)

lemma first_word_fields:
  "RTP_V (first_word b0 b1 b2 b3) = ucast (drop_bit 6 b0)"
  "RTP_P (first_word b0 b1 b2 b3) = bit b0 5"
  "RTP_X (first_word b0 b1 b2 b3) = bit b0 4"
  "RTP_CC (first_word b0 b1 b2 b3) = ucast b0"
  "RTP_M (first_word b0 b1 b2 b3) = bit b1 7"
  "RTP_PT (first_word b0 b1 b2 b3) = ucast b1"
  "RTP_SEQ (first_word b0 b1 b2 b3) = push_bit 8 (ucast b2) OR ucast b3"
  unfolding rtp_field_defs first_word_def small_masks and_one_iff
  by ((rule bit_word_eqI)?, auto simp: bit_simps dest: bit_imp_le_length)+

definition header_byte0 :: "2 word \<Rightarrow> bool \<Rightarrow> bool \<Rightarrow> 4 word \<Rightarrow> u8" where
  "header_byte0 v p x cc =
     ucast ((push_bit 6 (ucast v) OR push_bit 5 (of_bool p) OR push_bit 4 (of_bool x) OR ucast cc) :: u32)"

definition header_byte1 :: "bool \<Rightarrow> 7 word \<Rightarrow> u8" where
  "header_byte1 m pt = ucast ((push_bit 7 (of_bool m) OR ucast pt) :: u32)"

lemmas byte_bits = bit_unsigned_iff bit_or_iff bit_push_bit_iff bit_drop_bit_eq o_def bit_of_bool_iff

lemma bit_header_byte0:
  "bit (header_byte0 v p x cc) n \<longleftrightarrow>
     n < 8 \<and> (6 \<le> n \<and> bit v (n - 6) \<or> n = 5 \<and> p \<or> n = 4 \<and> x \<or> bit cc n)"
  unfolding header_byte0_def byte_bits by (auto simp: bit_simps dest: bit_imp_le_length)

lemma bit_header_byte1: "bit (header_byte1 m pt) n \<longleftrightarrow> n < 8 \<and> (n = 7 \<and> m \<or> bit pt n)"
  unfolding header_byte1_def byte_bits by (auto simp: bit_simps dest: bit_imp_le_length)

lemma header_byte0_v: "ucast (drop_bit 6 (header_byte0 v p x cc)) = v"
  by (rule bit_word_eqI) (auto simp: bit_simps bit_header_byte0 dest: bit_imp_le_length)

lemma header_byte0_cc: "ucast (header_byte0 v p x cc) = cc"
  by (rule bit_word_eqI) (auto simp: bit_simps bit_header_byte0 dest: bit_imp_le_length)

lemma header_byte1_pt: "ucast (header_byte1 m pt) = pt"
  by (rule bit_word_eqI) (auto simp: bit_simps bit_header_byte1 dest: bit_imp_le_length)

lemma header_bits:
  "bit (header_byte0 v p x cc) 5 = p" "bit (header_byte0 v p x cc) 4 = x" "bit (header_byte1 m pt) 7 = m"
  by (auto simp: bit_header_byte0 bit_header_byte1 dest: bit_imp_le_length)

lemma nbo_write_rtp_header_eq:
  "nbo_write_rtp_header h =
     [header_byte0 (rtp_v h) (rtp_p h) (rtp_x h) (rtp_cc h), header_byte1 (rtp_m h) (rtp_pt h),
      ucast (drop_bit 8 (rtp_seq h)), ucast (rtp_seq h AND 0xff)] @
     be32_bytes (rtp_timestamp h) @ be32_bytes (rtp_ssrc h)"
  by (simp add: nbo_write_rtp_header_def header_byte0_def header_byte1_def)

lemma length_rtp_header [simp]: "length (nbo_write_rtp_header h) = 12"
  by (simp add: nbo_write_rtp_header_def)

text \<open>The fixed header reads back, whatever follows it.\<close>

lemma be32_first_word: "be32_at (b0 # b1 # b2 # b3 # ys) 0 = first_word b0 b1 b2 b3"
  by (simp add: be32_at_def byte_at_def first_word_def)

lemma read_written_header: "read_header (nbo_write_rtp_header h @ rest) = h"
proof -
  let ?b = "[header_byte0 (rtp_v h) (rtp_p h) (rtp_x h) (rtp_cc h), header_byte1 (rtp_m h) (rtp_pt h),
      ucast (drop_bit 8 (rtp_seq h)), ucast (rtp_seq h AND 0xff)]"
  have first: "be32_at (nbo_write_rtp_header h @ rest) 0 =
    first_word (?b ! 0) (?b ! 1) (?b ! 2) (?b ! 3)"
    by (simp add: nbo_write_rtp_header_eq be32_first_word)
  have "be32_at (nbo_write_rtp_header h @ rest) 4 = rtp_timestamp h"
    "be32_at (nbo_write_rtp_header h @ rest) 8 = rtp_ssrc h"
    by (simp_all add: nbo_write_rtp_header_eq be32_at_append2 [of ?b, simplified] byte_simps)
  then show ?thesis
    by (simp add: read_header_def first first_word_fields header_bits header_byte0_v header_byte0_cc
        header_byte1_pt be16_join)
qed

section \<open>Round trip\<close>

text \<open>A packet the serializer writes in full: what a sender fills in.\<close>

definition packet_ok :: "rtp_packet \<Rightarrow> bool" where
  "packet_ok pkt \<longleftrightarrow>
     rtp_v (pkt_rtp pkt) = RTP_VERSION \<and> \<not> rtp_p (pkt_rtp pkt) \<and> length (pkt_csrc pkt) = 16 \<and>
     drop (unat (rtp_cc (pkt_rtp pkt))) (pkt_csrc pkt) = replicate (16 - unat (rtp_cc (pkt_rtp pkt))) 0 \<and>
     unat (pkt_extlen pkt) mod 4 = 0 \<and>
     (if rtp_x (pkt_rtp pkt) then length (pkt_extension pkt) = unat (pkt_extlen pkt)
      else pkt_extension pkt = [] \<and> pkt_extlen pkt = 0 \<and> pkt_extprofile pkt = 0)"

definition packet_bytes :: "rtp_packet \<Rightarrow> nat" where
  "packet_bytes pkt = 12 + unat (rtp_cc (pkt_rtp pkt)) * 4 +
     (if rtp_x (pkt_rtp pkt) then 4 + unat (pkt_extlen pkt) else 0) + length (pkt_payload pkt)"

lemma cc_less: "unat (c :: 4 word) < 16"
  using unsigned_less [of c, where ?'a = nat] by simp

lemma be32_at_csrc:
  "i < length xs \<Longrightarrow> be32_at (concat (map be32_bytes xs) @ ys) (i * 4) = xs ! i"
proof (induction xs arbitrary: i)
  case (Cons x xs)
  then show ?case
    by (cases i) (simp_all add: byte_simps be32_at_append2 [of "be32_bytes x"])
qed simp

lemma length_csrc_bytes: "length (concat (map be32_bytes xs)) = 4 * length xs"
  by (induction xs) simp_all

lemma extlen_div4: "unat (e :: u16) mod 4 = 0 \<Longrightarrow> e div 4 * 4 = e"
proof -
  assume "unat e mod 4 = 0"
  then have "unat (e mod 4) = 0" by (simp add: unat_mod_distrib)
  then have "e mod 4 = 0" by (simp only: unsigned_eq_0_iff)
  then show "e div 4 * 4 = e" using div_mult_mod_eq [of e 4] by simp
qed

definition ext_bytes :: "rtp_packet \<Rightarrow> bytes" where
  "ext_bytes pkt = (if rtp_x (pkt_rtp pkt)
     then be16_bytes (pkt_extprofile pkt) @ be16_bytes (pkt_extlen pkt div 4) @ pkt_extension pkt else [])"

definition csrc_bytes :: "rtp_packet \<Rightarrow> bytes" where
  "csrc_bytes pkt = concat (map be32_bytes (take (unat (rtp_cc (pkt_rtp pkt))) (pkt_csrc pkt)))"

definition wire :: "rtp_packet \<Rightarrow> bytes" where
  "wire pkt = nbo_write_rtp_header (pkt_rtp pkt) @ csrc_bytes pkt @ ext_bytes pkt @ pkt_payload pkt"

lemma serialize_wire:
  "packet_ok pkt \<Longrightarrow> packet_bytes pkt \<le> bytes \<Longrightarrow> rtp_packet_serialize pkt bytes = Some (wire pkt)"
  by (auto simp: rtp_packet_serialize_def rtp_packet_serialize_header_def Let_def packet_ok_def packet_bytes_def
      RTP_FIXED_HEADER_def wire_def ext_bytes_def csrc_bytes_def split: if_splits)

lemma length_csrc_part:
  "packet_ok pkt \<Longrightarrow> length (csrc_bytes pkt) = 4 * unat (rtp_cc (pkt_rtp pkt))"
  using cc_less [of "rtp_cc (pkt_rtp pkt)"] by (simp add: csrc_bytes_def length_csrc_bytes packet_ok_def)

lemma length_wire: "packet_ok pkt \<Longrightarrow> length (wire pkt) = packet_bytes pkt"
  by (auto simp: wire_def packet_bytes_def length_csrc_part ext_bytes_def packet_ok_def)

lemma wire_csrc:
  assumes ok: "packet_ok pkt"
  shows "map (\<lambda>i. be32_at (wire pkt) (12 + i * 4)) [0..<unat (rtp_cc (pkt_rtp pkt))] @
    replicate (16 - unat (rtp_cc (pkt_rtp pkt))) 0 = pkt_csrc pkt"
proof -
  define cc where "cc = unat (rtp_cc (pkt_rtp pkt))"
  have cc: "cc < 16" "length (pkt_csrc pkt) = 16" using ok cc_less by (auto simp: cc_def packet_ok_def)
  have "be32_at (wire pkt) (12 + i * 4) = pkt_csrc pkt ! i" if "i < cc" for i
  proof -
    have "be32_at (wire pkt) (12 + i * 4) =
      be32_at (csrc_bytes pkt @ ext_bytes pkt @ pkt_payload pkt) (i * 4)"
      by (simp add: wire_def be32_at_append2)
    also have "\<dots> = pkt_csrc pkt ! i"
      using be32_at_csrc [of i "take cc (pkt_csrc pkt)"] that cc by (simp add: csrc_bytes_def cc_def)
    finally show ?thesis .
  qed
  then have "map (\<lambda>i. be32_at (wire pkt) (12 + i * 4)) [0..<cc] = take cc (pkt_csrc pkt)"
    using cc by (intro nth_equalityI) auto
  moreover have "replicate (16 - cc) 0 = drop cc (pkt_csrc pkt)" using ok by (simp add: packet_ok_def cc_def)
  ultimately show ?thesis by (simp only: cc_def [symmetric] append_take_drop_id)
qed

lemma wire_drop:
  assumes ok: "packet_ok pkt"
  shows "drop (12 + unat (rtp_cc (pkt_rtp pkt)) * 4) (wire pkt) = ext_bytes pkt @ pkt_payload pkt"
    and "be16_at (wire pkt) (12 + unat (rtp_cc (pkt_rtp pkt)) * 4 + j) = be16_at (ext_bytes pkt @ pkt_payload pkt) j"
proof -
  let ?pre = "nbo_write_rtp_header (pkt_rtp pkt) @ csrc_bytes pkt"
  have len: "length ?pre = 12 + unat (rtp_cc (pkt_rtp pkt)) * 4" using length_csrc_part [OF ok] by simp
  have w: "wire pkt = ?pre @ (ext_bytes pkt @ pkt_payload pkt)" by (simp add: wire_def)
  show "drop (12 + unat (rtp_cc (pkt_rtp pkt)) * 4) (wire pkt) = ext_bytes pkt @ pkt_payload pkt"
    unfolding w len [symmetric] by simp
  show "be16_at (wire pkt) (12 + unat (rtp_cc (pkt_rtp pkt)) * 4 + j) = be16_at (ext_bytes pkt @ pkt_payload pkt) j"
    unfolding w len [symmetric] by (subst be16_at_append2) simp_all
qed

lemma ext_reads:
  assumes ok: "packet_ok pkt" and x: "rtp_x (pkt_rtp pkt)"
  shows "be16_at (ext_bytes pkt @ r) 0 = pkt_extprofile pkt"
    and "be16_at (ext_bytes pkt @ r) 2 * 4 = pkt_extlen pkt"
    and "drop 4 (ext_bytes pkt @ r) = pkt_extension pkt @ r"
proof -
  have e: "ext_bytes pkt @ r = be16_bytes (pkt_extprofile pkt) @ be16_bytes (pkt_extlen pkt div 4) @ pkt_extension pkt @ r"
    using x by (simp add: ext_bytes_def)
  show "be16_at (ext_bytes pkt @ r) 0 = pkt_extprofile pkt" unfolding e by (rule be16_at_bytes)
  show "be16_at (ext_bytes pkt @ r) 2 * 4 = pkt_extlen pkt"
    unfolding e using ok by (simp add: byte_simps packet_ok_def extlen_div4)
  show "drop 4 (ext_bytes pkt @ r) = pkt_extension pkt @ r" unfolding e by simp
qed

lemma wire_reads: "packet_ok pkt \<Longrightarrow> rtp_packet_deserialize (wire pkt) = Some pkt"
proof -
  assume ok: "packet_ok pkt"
  define hl where "hl = 12 + unat (rtp_cc (pkt_rtp pkt)) * 4"
  have head: "read_header (wire pkt) = pkt_rtp pkt" by (simp add: wire_def read_written_header)
  note d = wire_drop [OF ok, folded hl_def]
  have d': "drop (hl + k) (wire pkt) = drop k (ext_bytes pkt @ pkt_payload pkt)" for k
    by (metis add.commute d(1) drop_drop)
  note rd = d(2) [of 0, simplified] d(2) [of 2]
  note csrc = wire_csrc [OF ok]
  have hl12: "12 \<le> hl" by (simp add: hl_def)
  have "rtp_packet_deserialize (wire pkt) =
    Some \<lparr>pkt_rtp = pkt_rtp pkt, pkt_csrc = pkt_csrc pkt, pkt_extension = pkt_extension pkt,
          pkt_extlen = pkt_extlen pkt, pkt_extprofile = pkt_extprofile pkt, pkt_payload = pkt_payload pkt\<rparr>"
  proof (cases "rtp_x (pkt_rtp pkt)")
    case True
    note e = ext_reads [OF ok True, of "pkt_payload pkt"]
    have skip: "drop (hl + (unat (pkt_extlen pkt) + 4)) (wire pkt) = pkt_payload pkt"
      unfolding d' using e(3) ok True by (metis add.commute append_eq_conv_conj drop_drop packet_ok_def)
    note ex = trans [OF d' [of 4] e(3)]
    show ?thesis
      using ok True length_wire [OF ok] hl12
      unfolding rtp_packet_deserialize_def head Let_def RTP_FIXED_HEADER_def hl_def [symmetric] csrc rd
      by (simp add: e packet_bytes_def packet_ok_def hl_def [symmetric] skip ex cong: if_cong)
  next
    case False
    then show ?thesis
      using ok length_wire [OF ok] d' [of 0] hl12
      unfolding rtp_packet_deserialize_def head Let_def RTP_FIXED_HEADER_def hl_def [symmetric] csrc
      by (simp add: packet_bytes_def packet_ok_def hl_def [symmetric] ext_bytes_def)
  qed
  then show ?thesis by simp
qed

lemma deserialize_payload:
  assumes "rtp_packet_deserialize data = Some pkt"
  shows "\<exists>off n. 12 \<le> off \<and> off + n \<le> length data \<and> pkt_payload pkt = take n (drop off data) \<and>
    length (pkt_payload pkt) = n"
proof -
  define h where "h = read_header data"
  define hl where "hl = 12 + unat (rtp_cc h) * 4"
  define skip where "skip = (if rtp_x h then unat (be16_at data (hl + 2) * 4) + 4 else 0)"
  define padding where "padding = (if rtp_p h then unat (byte_at data (length data - 1)) else 0)"
  from assms have "hl \<le> length data" "skip \<le> length data - hl" "padding \<le> length data - hl - skip"
    "pkt_payload pkt = take (length data - hl - skip - padding) (drop (hl + skip) data)"
    by (auto simp: rtp_packet_deserialize_def Let_def RTP_FIXED_HEADER_def h_def hl_def skip_def padding_def
        split: if_splits)
  then show ?thesis
    by (intro exI [of _ "hl + skip"] exI [of _ "length data - hl - skip - padding"]) (auto simp: hl_def)
qed

definition sample_rtp :: rtp_packet where
  "sample_rtp = \<lparr>pkt_rtp = \<lparr>rtp_v = 2, rtp_p = False, rtp_x = True, rtp_cc = 1, rtp_m = True, rtp_pt = 96,
                            rtp_seq = 65535, rtp_timestamp = 0xfffffff0, rtp_ssrc = 0x01020304\<rparr>,
                 pkt_csrc = 7 # replicate 15 0, pkt_extension = [1, 2, 3, 4], pkt_extlen = 4,
                 pkt_extprofile = 0xbede, pkt_payload = [0, 0, 1, 0xba]\<rparr>"



text \<open>
  The payload of an accepted datagram is a contiguous part of it that starts after the fixed
  header and never reaches past its end, for every datagram a peer can send.
\<close>

lemma rtp_payload_in_datagram:
  assumes "rtp_packet_deserialize data = Some pkt"
  shows "\<exists>pre post. data = pre @ pkt_payload pkt @ post \<and> 12 \<le> length pre"
proof -
  obtain off n where o: "12 \<le> off" "off + n \<le> length data" "pkt_payload pkt = take n (drop off data)"
    using deserialize_payload [OF assms] by blast
  have "data = take off data @ take n (drop off data) @ drop n (drop off data)" by (simp only: append_take_drop_id)
  with o show ?thesis by (intro exI [of _ "take off data"] exI [of _ "drop n (drop off data)"]) simp
qed


end
