(* ===== verification/Rtp_Ts_Pack.thy ===== *)
theory Rtp_Ts_Pack
  imports Rtp_Packet
begin

text \<open>
  \<open>third/ireader/librtp/source/payload/rtp-ts-pack.c\<close>: cutting a transport or program stream
  into RTP packets, with the packet size of \<open>rtp-payload.c\<close>. The call-backs of the user are
  arguments: \<open>alloc n\<close> says whether a buffer of \<open>n\<close> bytes is granted, and \<open>packet\<close> takes a
  packet and the user's state to an answer and a new state. The loop ends only when the packet
  size exceeds the RTP header, so it is a partial function, whose result \<open>None\<close> is not returning.
\<close>

definition ENOMEM :: int where "ENOMEM = 12"
definition RTP_PAYLOAD_MP2T :: u8 where "RTP_PAYLOAD_MP2T = 33"
definition TS_PACKET_SIZE :: nat where "TS_PACKET_SIZE = 188"
definition s_max_packet_size :: nat where "s_max_packet_size = 1200"

definition rtp_packet_setsize :: "nat \<Rightarrow> nat" where
  "rtp_packet_setsize bytes = (if bytes < 564 then 564 else bytes)"

record rtp_encode_ts =
  ts_pkt :: rtp_packet
  ts_size :: nat

definition zero_packet :: rtp_packet where
  "zero_packet = \<lparr>pkt_rtp = \<lparr>rtp_v = 0, rtp_p = False, rtp_x = False, rtp_cc = 0, rtp_m = False, rtp_pt = 0,
                            rtp_seq = 0, rtp_timestamp = 0, rtp_ssrc = 0\<rparr>,
                  pkt_csrc = replicate 16 0, pkt_extension = [], pkt_extlen = 0, pkt_extprofile = 0, pkt_payload = []\<rparr>"

definition rtp_ts_pack_create :: "nat \<Rightarrow> u8 \<Rightarrow> u16 \<Rightarrow> u32 \<Rightarrow> rtp_encode_ts option" where
  "rtp_ts_pack_create size0 pt seq ssrc =
     (let size = (if pt = RTP_PAYLOAD_MP2T
                  then (size0 - RTP_FIXED_HEADER) div TS_PACKET_SIZE * TS_PACKET_SIZE + RTP_FIXED_HEADER else size0);
          pkt = zero_packet\<lparr>pkt_rtp := (pkt_rtp zero_packet)\<lparr>rtp_v := RTP_VERSION, rtp_pt := ucast pt, rtp_seq := seq, rtp_ssrc := ssrc\<rparr>\<rparr>
      in if pt = RTP_PAYLOAD_MP2T \<and> size < 64 then None else Some \<lparr>ts_pkt = pkt, ts_size = size\<rparr>)"

partial_function (option) pack_loop ::
  "(nat \<Rightarrow> bool) \<Rightarrow> (bytes \<Rightarrow> 's \<Rightarrow> int \<times> 's) \<Rightarrow> nat \<Rightarrow> rtp_packet \<Rightarrow> bytes \<Rightarrow> int \<Rightarrow> 's \<Rightarrow> (int \<times> rtp_packet \<times> 's) option"
where
  "pack_loop alloc packet max_size pkt data r s =
     (if r \<noteq> 0 \<or> data = [] then Some (r, pkt, s)
      else
        let payloadlen = (if length data + RTP_FIXED_HEADER \<le> max_size then length data else max_size - RTP_FIXED_HEADER);
            n = RTP_FIXED_HEADER + payloadlen;
            pkt1 = pkt\<lparr>pkt_payload := take payloadlen data\<rparr>
        in if \<not> alloc n then Some (- ENOMEM, pkt1, s)
           else
             let pkt2 = pkt1\<lparr>pkt_rtp := (pkt_rtp pkt1)\<lparr>rtp_m := False\<rparr>\<rparr>
             in case rtp_packet_serialize pkt2 n of
                  None \<Rightarrow> Some (-1, pkt2, s)
                | Some rtp \<Rightarrow>
                    if length rtp \<noteq> n then Some (-1, pkt2, s)
                    else let (r', s') = packet rtp s
                         in pack_loop alloc packet max_size
                              (pkt2\<lparr>pkt_rtp := (pkt_rtp pkt2)\<lparr>rtp_seq := rtp_seq (pkt_rtp pkt2) + 1\<rparr>\<rparr>)
                              (drop payloadlen data) r' s')"

definition rtp_ts_pack_input ::
  "(nat \<Rightarrow> bool) \<Rightarrow> (bytes \<Rightarrow> 's \<Rightarrow> int \<times> 's) \<Rightarrow> rtp_encode_ts \<Rightarrow> bytes \<Rightarrow> u32 \<Rightarrow> 's \<Rightarrow> (int \<times> rtp_encode_ts \<times> 's) option" where
  "rtp_ts_pack_input alloc packet packer data timestamp s =
     (let pkt = (ts_pkt packer)\<lparr>pkt_rtp := (pkt_rtp (ts_pkt packer))\<lparr>rtp_timestamp := timestamp\<rparr>\<rparr>
      in map_option (\<lambda>(r, pkt', s'). (r, packer\<lparr>ts_pkt := pkt'\<rparr>, s'))
           (pack_loop alloc packet (ts_size packer) pkt data 0 s))"

section \<open>What the packer emits\<close>

text \<open>A packer fresh from \<open>create\<close>, or after any number of inputs.\<close>

definition plain_packet :: "rtp_packet \<Rightarrow> bool" where
  "plain_packet pkt \<longleftrightarrow>
     rtp_v (pkt_rtp pkt) = RTP_VERSION \<and> \<not> rtp_p (pkt_rtp pkt) \<and> \<not> rtp_x (pkt_rtp pkt) \<and> rtp_cc (pkt_rtp pkt) = 0 \<and>
     \<not> rtp_m (pkt_rtp pkt) \<and>
     pkt_csrc pkt = replicate 16 0 \<and> pkt_extension pkt = [] \<and> pkt_extlen pkt = 0 \<and> pkt_extprofile pkt = 0"

definition packer_ok :: "rtp_encode_ts \<Rightarrow> bool" where
  "packer_ok packer \<longleftrightarrow> plain_packet (ts_pkt packer) \<and> RTP_FIXED_HEADER < ts_size packer"

text \<open>The reference: the data in pieces of \<open>n\<close> bytes, and the packets that carry them.\<close>

fun pieces :: "nat \<Rightarrow> bytes \<Rightarrow> bytes list" where
  "pieces n data = (if data = [] \<or> n = 0 then [] else take n data # pieces n (drop n data))"

definition with_seq :: "rtp_packet \<Rightarrow> u16 \<Rightarrow> bytes \<Rightarrow> rtp_packet" where
  "with_seq pkt seq payload = pkt\<lparr>pkt_rtp := (pkt_rtp pkt)\<lparr>rtp_seq := seq\<rparr>, pkt_payload := payload\<rparr>"

fun packets_of :: "rtp_packet \<Rightarrow> u16 \<Rightarrow> bytes list \<Rightarrow> rtp_packet list" where
  "packets_of pkt seq [] = []"
| "packets_of pkt seq (c # cs) = with_seq pkt seq c # packets_of pkt (seq + 1) cs"

declare pieces.simps [simp del]

lemma pieces_Nil [simp]: "pieces n [] = []"
  by (simp add: pieces.simps)

lemma concat_pieces: "0 < n \<Longrightarrow> concat (pieces n data) = data"
  by (induction n data rule: pieces.induct) (subst pieces.simps, auto)

lemma pieces_bounds: "c \<in> set (pieces n data) \<Longrightarrow> c \<noteq> [] \<and> length c \<le> n"
  by (induction n data rule: pieces.induct) (subst (asm) (2) pieces.simps, auto split: if_splits)

lemma payloads_packets_of: "map pkt_payload (packets_of pkt seq cs) = cs"
  by (induction cs arbitrary: seq) (simp_all add: with_seq_def)

lemma plain_packet_ok:
  assumes "plain_packet pkt"
  shows "packet_ok (with_seq pkt seq c)" "packet_bytes (with_seq pkt seq c) = 12 + length c"
  using assms by (simp_all add: plain_packet_def packet_ok_def packet_bytes_def with_seq_def)

lemma create_packer_ok:
  assumes "rtp_ts_pack_create max_size pt seq ssrc = Some packer" "12 < max_size"
  shows "packer_ok packer"
  using assms
  by (cases "(max_size - 12) div 188")
    (auto simp: rtp_ts_pack_create_def Let_def packer_ok_def plain_packet_def zero_packet_def RTP_FIXED_HEADER_def
      TS_PACKET_SIZE_def split: if_splits)

text \<open>
  The loop against the reference: with a user that grants every buffer up to the packet size and
  accepts every packet, it returns 0 after handing over exactly the reference packets.
\<close>

lemma pack_loop_emits:
  assumes "plain_packet pkt" "12 < max_size" "\<And>n. 12 < n \<Longrightarrow> n \<le> max_size \<Longrightarrow> alloc n" "\<And>p s. fst (packet p s) = 0"
  shows "\<exists>pkt'. plain_packet pkt' \<and> rtp_seq (pkt_rtp pkt') = rtp_seq (pkt_rtp pkt) + of_nat (length (pieces (max_size - 12) data)) \<and>
    pkt_rtp pkt' = (pkt_rtp pkt)\<lparr>rtp_seq := rtp_seq (pkt_rtp pkt')\<rparr> \<and>
    pack_loop alloc packet max_size pkt data 0 s =
      Some (0, pkt', fold (\<lambda>p s. snd (packet (wire p) s)) (packets_of pkt (rtp_seq (pkt_rtp pkt)) (pieces (max_size - 12) data)) s)"
  using assms(1)
proof (induction "length data" arbitrary: data pkt s rule: less_induct)
  case less
  show ?case
  proof (cases "data = []")
    case True
    with less(2) show ?thesis by (intro exI [of _ pkt]) (simp add: pack_loop.simps)
  next
    case False
    define n where "n = (if length data + 12 \<le> max_size then length data else max_size - 12)"
    have n: "0 < n" "n \<le> length data" "n \<le> max_size - 12" using False assms(2) by (auto simp: n_def)
    have pc: "pieces (max_size - 12) data = take n data # pieces (max_size - 12) (drop n data)"
      using False assms(2) by (subst pieces.simps) (auto simp: n_def)
    define p1 where "p1 = with_seq pkt (rtp_seq (pkt_rtp pkt)) (take n data)"
    define p2 where "p2 = p1\<lparr>pkt_rtp := (pkt_rtp p1)\<lparr>rtp_seq := rtp_seq (pkt_rtp p1) + 1\<rparr>\<rparr>"
    have p1: "pkt\<lparr>pkt_payload := take n data, pkt_rtp := (pkt_rtp pkt)\<lparr>rtp_m := False\<rparr>\<rparr> = p1"
      using less(2) by (simp add: p1_def with_seq_def plain_packet_def)
    have ser: "rtp_packet_serialize p1 (12 + n) = Some (wire p1)" "length (wire p1) = 12 + n"
      using plain_packet_ok [OF less(2)] n by (simp_all add: serialize_wire length_wire p1_def)
    have p2: "plain_packet p2" using less(2) by (simp add: p2_def p1_def with_seq_def plain_packet_def)
    obtain s' where s': "packet (wire p1) s = (0, s')" using assms(4) by (metis prod.collapse)
    have step: "pack_loop alloc packet max_size pkt data 0 s = pack_loop alloc packet max_size p2 (drop n data) 0 s'"
      using False n assms(2,3) ser
      by (subst pack_loop.simps, unfold RTP_FIXED_HEADER_def n_def [symmetric] Let_def)
        (simp add: p1 s' p2_def)
    have shape: "packets_of p2 q cs = packets_of pkt q cs" for q cs
      by (induction cs arbitrary: q) (simp_all add: p2_def p1_def with_seq_def)
    have "length (drop n data) < length data" using n False by simp
    from less(1) [OF this p2, of s'] obtain pkt' where pkt': "plain_packet pkt'"
      "rtp_seq (pkt_rtp pkt') = rtp_seq (pkt_rtp p2) + of_nat (length (pieces (max_size - 12) (drop n data)))"
      "pkt_rtp pkt' = (pkt_rtp p2)\<lparr>rtp_seq := rtp_seq (pkt_rtp pkt')\<rparr>"
      "pack_loop alloc packet max_size p2 (drop n data) 0 s' = Some (0, pkt', fold (\<lambda>p s. snd (packet (wire p) s))
         (packets_of pkt (rtp_seq (pkt_rtp p2)) (pieces (max_size - 12) (drop n data))) s')"
      unfolding shape by blast
    have seq: "rtp_seq (pkt_rtp p2) = rtp_seq (pkt_rtp pkt) + 1"
      "(pkt_rtp p2)\<lparr>rtp_seq := q\<rparr> = (pkt_rtp pkt)\<lparr>rtp_seq := q\<rparr>" for q
      by (simp_all add: p2_def p1_def with_seq_def)
    show ?thesis
      by (rule exI [of _ pkt']) (use pkt' in \<open>simp add: pc step seq s' p1_def [symmetric]\<close>)
  qed
qed

lemma length_packets_of [simp]: "length (packets_of pkt seq cs) = length cs"
  by (induction cs arbitrary: seq) simp_all

lemma headers_packets_of:
  "map pkt_rtp (packets_of pkt seq cs) = map (\<lambda>i. (pkt_rtp pkt)\<lparr>rtp_seq := seq + of_nat i\<rparr>) [0..<length cs]"
proof (induction cs arbitrary: seq)
  case (Cons c cs)
  have "[0..<length (c # cs)] = 0 # map Suc [0..<length cs]" by (simp add: upt_conv_Cons map_Suc_upt del: upt_Suc)
  with Cons show ?case by (simp add: with_seq_def add.assoc del: upt_Suc)
qed simp

lemma in_packets_of: "p \<in> set (packets_of pkt seq cs) \<Longrightarrow> \<exists>q. \<exists>c \<in> set cs. p = with_seq pkt q c"
  by (induction cs arbitrary: seq) (simp, fastforce)

lemma fold_collect: "fold (\<lambda>p out. out @ [f p]) ps out = out @ map f ps"
  by (induction ps arbitrary: out) simp_all

lemma pack_input_emits:
  assumes "packer_ok packer" "\<And>n. 12 < n \<Longrightarrow> n \<le> ts_size packer \<Longrightarrow> alloc n"
  shows "\<exists>packer' pkts.
    rtp_ts_pack_input alloc (\<lambda>p out. (0, out @ [p])) packer data timestamp out = Some (0, packer', out @ map wire pkts) \<and>
    packer_ok packer' \<and> ts_size packer' = ts_size packer \<and>
    concat (map pkt_payload pkts) = data \<and>
    (\<forall>p \<in> set pkts. packet_ok p \<and> 0 < length (pkt_payload p) \<and> packet_bytes p \<le> ts_size packer) \<and>
    map pkt_rtp pkts = map (\<lambda>i. (pkt_rtp (ts_pkt packer))\<lparr>rtp_timestamp := timestamp,
        rtp_seq := rtp_seq (pkt_rtp (ts_pkt packer)) + of_nat i\<rparr>) [0..<length pkts] \<and>
    pkt_rtp (ts_pkt packer') = (pkt_rtp (ts_pkt packer))\<lparr>rtp_timestamp := timestamp,
        rtp_seq := rtp_seq (pkt_rtp (ts_pkt packer)) + of_nat (length pkts)\<rparr>"
proof -
  define pkt where "pkt = (ts_pkt packer)\<lparr>pkt_rtp := (pkt_rtp (ts_pkt packer))\<lparr>rtp_timestamp := timestamp\<rparr>\<rparr>"
  define cs where "cs = pieces (ts_size packer - 12) data"
  define pkts where "pkts = packets_of pkt (rtp_seq (pkt_rtp pkt)) cs"
  have plain: "plain_packet pkt" and big: "12 < ts_size packer"
    using assms(1) by (simp_all add: pkt_def plain_packet_def packer_ok_def RTP_FIXED_HEADER_def)
  obtain pkt' where pkt': "plain_packet pkt'" "rtp_seq (pkt_rtp pkt') = rtp_seq (pkt_rtp pkt) + of_nat (length cs)"
    "pkt_rtp pkt' = (pkt_rtp pkt)\<lparr>rtp_seq := rtp_seq (pkt_rtp pkt')\<rparr>"
    "pack_loop alloc (\<lambda>p out. (0, out @ [p])) (ts_size packer) pkt data 0 out = Some (0, pkt', out @ map wire pkts)"
    using assms(2) pack_loop_emits [OF plain big, where alloc = alloc and packet = "\<lambda>p out. (0, out @ [p])" and data = data and s = out]
    by (auto simp: cs_def pkts_def fold_collect)
  have "concat (map pkt_payload pkts) = data"
    using big by (simp add: pkts_def payloads_packets_of cs_def concat_pieces)
  moreover have "packet_ok p \<and> 0 < length (pkt_payload p) \<and> packet_bytes p \<le> ts_size packer" if inp: "p \<in> set pkts" for p
  proof -
    obtain q c where p: "c \<in> set cs" "p = with_seq pkt q c"
      using in_packets_of [OF inp [unfolded pkts_def]] by blast
    from pieces_bounds [OF p(1) [unfolded cs_def]] plain_packet_ok [OF plain, of q c] big p(2) show ?thesis
      by (auto simp: with_seq_def)
  qed
  moreover have "map pkt_rtp pkts = map (\<lambda>i. (pkt_rtp (ts_pkt packer))\<lparr>rtp_timestamp := timestamp,
        rtp_seq := rtp_seq (pkt_rtp (ts_pkt packer)) + of_nat i\<rparr>) [0..<length pkts]"
    by (simp add: pkts_def headers_packets_of pkt_def)
  moreover have "pkt_rtp pkt' = (pkt_rtp (ts_pkt packer))\<lparr>rtp_timestamp := timestamp,
        rtp_seq := rtp_seq (pkt_rtp (ts_pkt packer)) + of_nat (length pkts)\<rparr>"
    using pkt'(2,3) by (simp add: pkt_def pkts_def)
  moreover have "packer_ok (packer\<lparr>ts_pkt := pkt'\<rparr>)" using assms(1) pkt'(1) by (simp add: packer_ok_def)
  moreover have "rtp_ts_pack_input alloc (\<lambda>p out. (0, out @ [p])) packer data timestamp out =
    Some (0, packer\<lparr>ts_pkt := pkt'\<rparr>, out @ map wire pkts)"
    using pkt'(4) by (simp add: rtp_ts_pack_input_def pkt_def)
  ultimately show ?thesis by (intro exI [of _ "packer\<lparr>ts_pkt := pkt'\<rparr>"] exI [of _ pkts]) simp
qed

text \<open>
  C29: Packing a program or transport stream always returns, whatever its length, once the user
  grants buffers up to the packet size and accepts the packets. The packets carry the data in
  order in pieces of at most the packet size, their sequence numbers count up modulo \<open>2^16\<close> from
  the packer's, and the packer is ready for the next input with the next sequence number.
\<close>

theorem rtp_ts_pack_correct:
  assumes "packer_ok packer" "\<And>n. 12 < n \<Longrightarrow> n \<le> ts_size packer \<Longrightarrow> alloc n"
  shows "\<exists>packer' pkts.
    rtp_ts_pack_input alloc (\<lambda>p out. (0, out @ [p])) packer data timestamp out = Some (0, packer', out @ map wire pkts) \<and>
    packer_ok packer' \<and> ts_size packer' = ts_size packer \<and>
    concat (map pkt_payload pkts) = data \<and>
    (\<forall>p \<in> set pkts. packet_ok p \<and> 0 < length (pkt_payload p) \<and> packet_bytes p \<le> ts_size packer) \<and>
    map pkt_rtp pkts = map (\<lambda>i. (pkt_rtp (ts_pkt packer))\<lparr>rtp_timestamp := timestamp,
        rtp_seq := rtp_seq (pkt_rtp (ts_pkt packer)) + of_nat i\<rparr>) [0..<length pkts] \<and>
    pkt_rtp (ts_pkt packer') = (pkt_rtp (ts_pkt packer))\<lparr>rtp_timestamp := timestamp,
        rtp_seq := rtp_seq (pkt_rtp (ts_pkt packer)) + of_nat (length pkts)\<rparr>"
  using assms by (rule pack_input_emits)

definition sample_packer :: rtp_encode_ts where
  "sample_packer = the (rtp_ts_pack_create s_max_packet_size 96 65535 7)"

lemma sample_packer_ok: "packer_ok sample_packer" "ts_size sample_packer = 1200"
  using create_packer_ok [of s_max_packet_size 96 65535 7 sample_packer]
  by (simp_all add: sample_packer_def rtp_ts_pack_create_def Let_def s_max_packet_size_def RTP_PAYLOAD_MP2T_def)

theorem rtp_ts_pack_correct_witness:
  "\<exists>packer' pkts. rtp_ts_pack_input (\<lambda>n. n \<le> 2048) (\<lambda>p out. (0, out @ [p])) sample_packer [0, 0, 1] 9 [] =
     Some (0, packer', map wire pkts) \<and> concat (map pkt_payload pkts) = [0, 0, 1]"
  using rtp_ts_pack_correct [OF sample_packer_ok(1), where alloc = "\<lambda>n. n \<le> 2048" and data = "[0, 0, 1]"
    and timestamp = 9 and out = "[]"] sample_packer_ok(2)
  by fastforce

end
