(* ===== verification/Gb28181_Tcp.thy ===== *)
theory Gb28181_Tcp
  imports Rtp_Packet
begin

text \<open>
  RTP over TCP as GB28181 uses it, two bytes of length before each packet: the sending side of
  \<open>media/gb28181/gb28181_tcp_sender_session.cpp\<close> and the reading loop of
  \<open>media/gb28181/gb28181_tcp_receiver_session.cpp\<close>.

  The sender gathers the packets of one turn of its worker in \<open>output_\<close> and posts one flush;
  \<open>tss_posted\<close> counts the posted flushes that have not run and \<open>tss_written\<close> holds the buffers
  given to the transport. The reader is a function of the chunks the socket returns; the RTP
  receiver behind it is the argument \<open>receive\<close>, a function from its state and a packet to a
  result and a new state.
\<close>

section \<open>Sending\<close>

record tcp_sender_session =
  tss_stream :: bool
  tss_output :: bytes
  tss_posted :: nat
  tss_written :: "bytes list"
  tss_listener :: bool
  tss_transport :: bool
  tss_sender :: bool
  tss_registered :: bool

definition send_packet :: "bytes \<Rightarrow> tcp_sender_session \<Rightarrow> tcp_sender_session" where
  "send_packet packet s =
     (if \<not> tss_stream s then s
      else
        let s1 = (if tss_output s = [] then s\<lparr>tss_posted := tss_posted s + 1\<rparr> else s);
            len = (of_nat (length packet) :: u16)
        in s1\<lparr>tss_output := tss_output s1 @ [ucast (drop_bit 8 len), ucast (len AND 0xff)] @ packet\<rparr>)"

text \<open>The posted handler.\<close>

definition flush_output :: "tcp_sender_session \<Rightarrow> tcp_sender_session" where
  "flush_output s =
     (let s1 = s\<lparr>tss_posted := tss_posted s - 1\<rparr>;
          s2 = (if tss_stream s1 then s1\<lparr>tss_written := tss_written s1 @ [tss_output s1]\<rparr> else s1)
      in s2\<lparr>tss_output := []\<rparr>)"

definition sender_safe_shutdown :: "tcp_sender_session \<Rightarrow> tcp_sender_session" where
  "sender_safe_shutdown s =
     (if \<not> tss_stream s then s
      else s\<lparr>tss_stream := False, tss_registered := False, tss_listener := False, tss_transport := False,
             tss_sender := False\<rparr>)"

text \<open>
  The life of a sender after its start: packets, posted flushes and the shutdown in any order;
  \<open>sent\<close> lists the packets taken while the stream was there.
\<close>

inductive sender_run :: "bytes list \<Rightarrow> tcp_sender_session \<Rightarrow> bool" where
  sender_start: "tss_stream s \<Longrightarrow> tss_output s = [] \<Longrightarrow> tss_posted s = 0 \<Longrightarrow> tss_written s = [] \<Longrightarrow> sender_run [] s"
| sender_send: "sender_run sent s \<Longrightarrow> tss_stream s \<Longrightarrow> sender_run (sent @ [packet]) (send_packet packet s)"
| sender_late: "sender_run sent s \<Longrightarrow> \<not> tss_stream s \<Longrightarrow> sender_run sent (send_packet packet s)"
| sender_flush: "sender_run sent s \<Longrightarrow> 0 < tss_posted s \<Longrightarrow> sender_run sent (flush_output s)"
| sender_stop: "sender_run sent s \<Longrightarrow> sender_run sent (sender_safe_shutdown s)"

section \<open>Receiving\<close>

datatype gb28181_rtp_receive_result = Ignored | Accepted | Fatal

text \<open>The inner loop of \<open>run_read\<close>: whether it stopped the session, the offset, the receiver.\<close>

function read_packets ::
  "('r \<Rightarrow> bytes \<Rightarrow> gb28181_rtp_receive_result \<times> 'r) \<Rightarrow> bytes \<Rightarrow> nat \<Rightarrow> 'r \<Rightarrow> bool \<times> nat \<times> 'r"
where
  "read_packets receive input_buffer offset r =
     (if length input_buffer - offset \<ge> 2 then
        let packet_bytes = unat (be16_at input_buffer offset)
        in if length input_buffer - offset < packet_bytes + 2 then (False, offset, r)
           else if packet_bytes \<noteq> 0 then
             (case receive r (take packet_bytes (drop (offset + 2) input_buffer)) of
                (Fatal, r') \<Rightarrow> (True, offset + 2, r')
              | (_, r') \<Rightarrow> read_packets receive input_buffer (offset + 2 + packet_bytes) r')
           else read_packets receive input_buffer (offset + 2) r
      else (False, offset, r))"
  by pat_completeness auto
termination
  by (relation "measure (\<lambda>(receive, input_buffer, offset, r). length input_buffer - offset)") auto

declare read_packets.simps [simp del]

record 'r tcp_reader =
  rd_input :: bytes
  rd_receiver :: 'r
  rd_stopped :: bool

text \<open>One successful read of the transport.\<close>

definition on_read ::
  "('r \<Rightarrow> bytes \<Rightarrow> gb28181_rtp_receive_result \<times> 'r) \<Rightarrow> bytes \<Rightarrow> 'r tcp_reader \<Rightarrow> 'r tcp_reader" where
  "on_read receive chunk s =
     (if rd_stopped s then s
      else
        let input_buffer = rd_input s @ chunk;
            (stop, offset, r) = read_packets receive input_buffer 0 (rd_receiver s)
        in if stop then s\<lparr>rd_input := input_buffer, rd_receiver := r, rd_stopped := True\<rparr>
           else s\<lparr>rd_receiver := r,
                  rd_input := (if offset = length input_buffer then []
                               else if offset \<noteq> 0 then drop offset input_buffer else input_buffer)\<rparr>)"

definition new_reader :: "'r \<Rightarrow> 'r tcp_reader" where
  "new_reader r = \<lparr>rd_input = [], rd_receiver = r, rd_stopped = False\<rparr>"

section \<open>The framing as a specification\<close>

definition tcp_frame :: "bytes \<Rightarrow> bytes" where
  "tcp_frame p = be16_bytes (of_nat (length p)) @ p"

function unframe :: "bytes \<Rightarrow> bytes list \<times> bytes" where
  "unframe bs =
     (if length bs < 2 then ([], bs)
      else let n = unat (be16_at bs 0)
           in if length bs < n + 2 then ([], bs)
              else case unframe (drop (n + 2) bs) of (ps, rest) \<Rightarrow> (take n (drop 2 bs) # ps, rest))"
  by pat_completeness auto
termination by (relation "measure length") auto

declare unframe.simps [simp del]

fun deliver :: "('r \<Rightarrow> bytes \<Rightarrow> gb28181_rtp_receive_result \<times> 'r) \<Rightarrow> bytes list \<Rightarrow> 'r \<Rightarrow> bool \<times> 'r" where
  "deliver receive [] r = (False, r)"
| "deliver receive (p # ps) r =
     (if p = [] then deliver receive ps r
      else case receive r p of
             (Fatal, r') \<Rightarrow> (True, r')
           | (_, r') \<Rightarrow> deliver receive ps r')"

lemma unframe_short: "length bs < 2 \<Longrightarrow> unframe bs = ([], bs)"
  by (subst unframe.simps) simp

lemma unframe_frame:
  "length p < 65536 \<Longrightarrow> unframe (tcp_frame p @ bs) = (case unframe bs of (ps, rest) \<Rightarrow> (p # ps, rest))"
  by (subst unframe.simps) (simp add: tcp_frame_def byte_simps unat_of_nat split: prod.splits)

lemma unframe_frames:
  "\<forall>p \<in> set ps. length p < 65536 \<Longrightarrow> unframe (concat (map tcp_frame ps)) = (ps, [])"
  by (induction ps) (simp_all add: unframe_frame unframe_short)

lemma deliver_append:
  "deliver receive (ps @ qs) r =
     (case deliver receive ps r of (True, r') \<Rightarrow> (True, r') | (False, r') \<Rightarrow> deliver receive qs r')"
  by (induction ps arbitrary: r) (auto split: prod.splits gb28181_rtp_receive_result.splits)

lemma unframe_append:
  "unframe (bs @ cs) =
     (case unframe bs of (ps, rest) \<Rightarrow> case unframe (rest @ cs) of (qs, rest') \<Rightarrow> (ps @ qs, rest'))"
proof (induction bs rule: unframe.induct)
  case (1 bs)
  define n where "n = unat (be16_at bs 0)"
  consider "length bs < 2" | "2 \<le> length bs" "length bs < n + 2" | "2 \<le> length bs" "n + 2 \<le> length bs" by linarith
  then show ?case
  proof cases
    case 1
    then show ?thesis by (simp add: unframe_short split: prod.splits)
  next
    case 2
    then have "unframe bs = ([], bs)" by (subst unframe.simps) (simp add: n_def Let_def)
    then show ?thesis by (simp split: prod.splits)
  next
    case 3
    have u: "unframe bs = (case unframe (drop (n + 2) bs) of (ps, rest) \<Rightarrow> (take n (drop 2 bs) # ps, rest))"
      using 3 by (subst unframe.simps) (simp add: n_def Let_def)
    have n': "unat (be16_at (bs @ cs) 0) = n" using 3 by (simp add: n_def be16_at_append1)
    have "unframe (bs @ cs) = (case unframe (drop (n + 2) bs @ cs) of (ps, rest) \<Rightarrow> (take n (drop 2 bs) # ps, rest))"
      using 3 by (subst unframe.simps) (simp add: n' Let_def)
    moreover note "1.IH" [of n]
    ultimately show ?thesis using 3 u by (simp add: n_def [symmetric] split: prod.splits)
  qed
qed

text \<open>The loop over offsets is the specification on the rest of the buffer.\<close>

lemma read_packets_spec:
  assumes "offset \<le> length input"
  shows "case unframe (drop offset input) of (ps, rest) \<Rightarrow>
    (case deliver receive ps r of (stop, r') \<Rightarrow>
       (\<exists>offset'. read_packets receive input offset r = (stop, offset', r') \<and>
          (\<not> stop \<longrightarrow> offset' \<le> length input \<and> drop offset' input = rest)))"
  using assms
proof (induction receive input offset r rule: read_packets.induct)
  case (1 receive input offset r)
  define n where "n = unat (be16_at input offset)"
  have at: "be16_at (drop offset input) 0 = be16_at input offset"
    by (auto simp: be16_at_def byte_at_def)
  consider "length input - offset < 2" | "2 \<le> length input - offset" "length input - offset < n + 2"
    | "n = 0" "2 \<le> length input - offset" | "n \<noteq> 0" "n + 2 \<le> length input - offset" by linarith
  then show ?case
  proof cases
    case 1
    with 1 "1.prems" show ?thesis by (subst read_packets.simps) (simp add: unframe_short)
  next
    case 2
    then have "unframe (drop offset input) = ([], drop offset input)"
      by (subst unframe.simps) (simp add: at n_def Let_def)
    with 2 "1.prems" show ?thesis by (subst read_packets.simps) (simp add: n_def Let_def)
  next
    case 3
    then have "unframe (drop offset input) = (case unframe (drop (offset + 2) input) of (ps, rest) \<Rightarrow> ([] # ps, rest))"
      by (subst unframe.simps) (simp add: at n_def Let_def add.commute)
    moreover note "1.IH"(3) [of n]
    ultimately show ?thesis using 3 "1.prems"
      by (subst read_packets.simps) (auto simp: n_def Let_def split: prod.splits)
  next
    case 4
    define p where "p = take n (drop (offset + 2) input)"
    have p: "p \<noteq> []" using 4 by (simp add: p_def)
    have u: "unframe (drop offset input) =
      (case unframe (drop (offset + 2 + n) input) of (ps, rest) \<Rightarrow> (p # ps, rest))"
      using 4 by (subst unframe.simps) (simp add: at n_def Let_def p_def add.commute add.left_commute)
    have step: "read_packets receive input offset r =
      (case receive r p of (Fatal, r') \<Rightarrow> (True, offset + 2, r')
       | (_, r') \<Rightarrow> read_packets receive input (offset + 2 + n) r')"
      unfolding p_def n_def using 4 [unfolded n_def] by (subst read_packets.simps) (simp add: Let_def)
    obtain res r1 where rr: "receive r p = (res, r1)" by fastforce
    show ?thesis
    proof (cases "res = Fatal")
      case True
      with p rr show ?thesis unfolding u step by (simp split: prod.splits)
    next
      case False
      have "offset + 2 + n \<le> length input" using 4 by simp
      with "1.IH"(1) [of n] "1.IH"(2) [of n] 4 False rr
      have "case unframe (drop (offset + 2 + n) input) of (ps, rest) \<Rightarrow>
        (case deliver receive ps r1 of (stop, r') \<Rightarrow>
           (\<exists>offset'. read_packets receive input (offset + 2 + n) r1 = (stop, offset', r') \<and>
              (\<not> stop \<longrightarrow> offset' \<le> length input \<and> drop offset' input = rest)))"
        by (cases res) (auto simp: n_def p_def)
      moreover have "read_packets receive input offset r = read_packets receive input (offset + 2 + n) r1"
        using step rr False by (cases res) simp_all
      ultimately show ?thesis using p rr False unfolding u
        by (cases res) (simp_all split: prod.splits)
    qed
  qed
qed

lemma on_read_spec:
  assumes "\<not> rd_stopped s" "snd (unframe (rd_input s)) = rd_input s" "fst (unframe (rd_input s)) = []"
  shows "case unframe (rd_input s @ chunk) of (ps, rest) \<Rightarrow>
    (case deliver receive ps (rd_receiver s) of (stop, r') \<Rightarrow>
       rd_stopped (on_read receive chunk s) = stop \<and> rd_receiver (on_read receive chunk s) = r' \<and>
       (\<not> stop \<longrightarrow> rd_input (on_read receive chunk s) = rest))"
  using assms(1) read_packets_spec [of 0 "rd_input s @ chunk" receive "rd_receiver s"]
  by (auto simp: on_read_def Let_def split: prod.splits)

lemma unframe_rest: "unframe bs = (ps, rest) \<Longrightarrow> unframe rest = ([], rest)"
proof (induction bs arbitrary: ps rule: unframe.induct)
  case (1 bs)
  define n where "n = unat (be16_at bs 0)"
  consider "length bs < 2" | "2 \<le> length bs" "length bs < n + 2" | "2 \<le> length bs" "n + 2 \<le> length bs" by linarith
  then show ?case
  proof cases
    case 3
    have u: "unframe bs = (case unframe (drop (n + 2) bs) of (ps, rest) \<Rightarrow> (take n (drop 2 bs) # ps, rest))"
      using 3 by (subst unframe.simps) (simp add: n_def Let_def)
    show ?thesis
    proof (cases "unframe (drop (n + 2) bs)")
      case (Pair qs rest')
      with "1.IH" [of n qs] 3 "1.prems" u show ?thesis by (simp add: n_def)
    qed
  next
    case 2
    then have "unframe bs = ([], bs)" by (subst unframe.simps) (simp add: n_def)
    with "1.prems" show ?thesis by simp
  qed (use "1.prems" in \<open>simp add: unframe_short\<close>)
qed

text \<open>The state of a reader that has taken the bytes \<open>bs\<close> in whatever chunks.\<close>

definition reader_after :: "('r \<Rightarrow> bytes \<Rightarrow> gb28181_rtp_receive_result \<times> 'r) \<Rightarrow> 'r \<Rightarrow> bytes \<Rightarrow> 'r tcp_reader \<Rightarrow> bool" where
  "reader_after receive r0 bs s \<longleftrightarrow>
     (case unframe bs of (ps, rest) \<Rightarrow>
        (case deliver receive ps r0 of (stop, r') \<Rightarrow>
           rd_stopped s = stop \<and> rd_receiver s = r' \<and> (\<not> stop \<longrightarrow> rd_input s = rest)))"

lemma reader_after_start: "reader_after receive r [] (new_reader r)"
  by (simp add: reader_after_def new_reader_def unframe_short)

lemma reader_after_read:
  assumes "reader_after receive r0 bs s"
  shows "reader_after receive r0 (bs @ chunk) (on_read receive chunk s)"
proof -
  obtain ps rest where u: "unframe bs = (ps, rest)" by fastforce
  obtain stop r where d: "deliver receive ps r0 = (stop, r)" by fastforce
  obtain qs rest' where u': "unframe (rest @ chunk) = (qs, rest')" by (rule prod.exhaust)
  have all: "unframe (bs @ chunk) = (ps @ qs, rest')" by (simp only: unframe_append [of bs chunk] u u' prod.case)
  show ?thesis
  proof (cases stop)
    case True
    with assms u d show ?thesis by (simp add: reader_after_def all deliver_append on_read_def)
  next
    case False
    with assms u d have s: "\<not> rd_stopped s" "rd_receiver s = r" "rd_input s = rest"
      by (auto simp: reader_after_def)
    have pre: "snd (unframe (rd_input s)) = rd_input s" "fst (unframe (rd_input s)) = []"
      using unframe_rest [OF u] by (simp_all add: s)
    have dd: "deliver receive (ps @ qs) r0 = deliver receive qs r"
      using d False by (simp add: deliver_append)
    show ?thesis
      using on_read_spec [OF s(1) pre, where chunk = chunk and receive = receive]
      unfolding s(2,3) u' prod.case reader_after_def all dd .
  qed
qed

lemma reader_after_chunks:
  "reader_after receive r0 (bs @ concat chunks) (fold (on_read receive) chunks s)"
  if "reader_after receive r0 bs s"
  using that
proof (induction chunks arbitrary: bs s)
  case (Cons c cs)
  from Cons.IH [OF reader_after_read [OF Cons.prems, of c]] show ?case by simp
qed simp

section \<open>The sender's side\<close>

lemma send_packet_output:
  "tss_stream s \<Longrightarrow> send_packet packet s =
     s\<lparr>tss_posted := tss_posted s + (if tss_output s = [] then 1 else 0), tss_output := tss_output s @ tcp_frame packet\<rparr>"
  by (simp add: send_packet_def Let_def tcp_frame_def be16_bytes_def)

lemma tcp_frame_nonempty [simp]: "tcp_frame p \<noteq> []"
  by (simp add: tcp_frame_def be16_bytes_def)

lemma sender_run_inv:
  "sender_run sent s \<Longrightarrow>
     tss_posted s = (if tss_output s = [] then 0 else 1) \<and>
     (tss_stream s \<longrightarrow> concat (tss_written s) @ tss_output s = concat (map tcp_frame sent)) \<and>
     (\<exists>pending. concat (tss_written s) @ pending = concat (map tcp_frame sent))"
proof (induction rule: sender_run.induct)
  case (sender_send sent s packet)
  then show ?case by (auto simp: send_packet_output) (metis append.assoc)
next
  case (sender_flush sent s)
  then show ?case by (auto simp: flush_output_def Let_def split: if_splits)
next
  case (sender_stop sent s)
  then show ?case by (auto simp: sender_safe_shutdown_def)
qed (auto simp: send_packet_def)

text \<open>
  C30: How the TCP byte stream is cut into reads makes no difference: after any chunks the RTP
  receiver is in the state, and the session stopped or not, that one read of all the bytes gives,
  and a session that goes on keeps exactly the bytes of the incomplete last packet.
\<close>

theorem tcp_reader_chunking:
  "fold (on_read receive) chunks (new_reader r) =
     fold (on_read receive) [concat chunks] (new_reader r) \<or>
   rd_stopped (fold (on_read receive) chunks (new_reader r)) \<and>
   rd_stopped (fold (on_read receive) [concat chunks] (new_reader r)) \<and>
   rd_receiver (fold (on_read receive) chunks (new_reader r)) =
   rd_receiver (fold (on_read receive) [concat chunks] (new_reader r))"
  using reader_after_chunks [OF reader_after_start [of receive r], of chunks]
    reader_after_chunks [OF reader_after_start [of receive r], of "[concat chunks]"]
  by (auto simp: reader_after_def split: prod.splits intro!: tcp_reader.equality)

text \<open>
  Whatever the order of sends, flushes and the shutdown, the transport gets a prefix of the
  framed packets in the order they were sent; while the session lives nothing is lost, and one
  flush is pending exactly when bytes wait, so that they are always written.
\<close>

lemma tcp_sender_order:
  assumes "sender_run sent s"
  shows "(\<exists>pending. concat (tss_written s) @ pending = concat (map tcp_frame sent)) \<and>
    (tss_stream s \<longrightarrow> concat (tss_written s) @ tss_output s = concat (map tcp_frame sent)) \<and>
    tss_posted s = (if tss_output s = [] then 0 else 1)"
  using sender_run_inv [OF assms] by blast

definition sample_sender :: tcp_sender_session where
  "sample_sender = \<lparr>tss_stream = True, tss_output = [], tss_posted = 0, tss_written = [], tss_listener = False,
                    tss_transport = True, tss_sender = True, tss_registered = True\<rparr>"

lemma sample_sender_run:
  "sender_run [[1], [2, 3]] (flush_output (send_packet [2, 3] (send_packet [1] sample_sender)))"
proof -
  have "sender_run [] sample_sender" by (rule sender_start) (simp_all add: sample_sender_def)
  then have "sender_run ([] @ [[1]]) (send_packet [1] sample_sender)" by (rule sender_send) (simp add: sample_sender_def)
  then have "sender_run (([] @ [[1]]) @ [[2, 3]]) (send_packet [2, 3] (send_packet [1] sample_sender))"
    by (rule sender_send) (simp add: sample_sender_def send_packet_def)
  then have "sender_run (([] @ [[1]]) @ [[2, 3]]) (flush_output (send_packet [2, 3] (send_packet [1] sample_sender)))"
    by (rule sender_flush) (simp add: sample_sender_def send_packet_def Let_def)
  then show ?thesis by simp
qed

text \<open>
  C7: What the GB28181 TCP sender writes, the GB28181 TCP reader receives: however the network
  cuts the bytes written so far, the receiver gets exactly the packets sent, one by one and in
  order, up to the first one it calls fatal.
\<close>

theorem tcp_sender_to_reader:
  assumes "sender_run sent s" "tss_stream s" "tss_output s = []" "\<forall>p \<in> set sent. length p < 65536"
    and "concat chunks = concat (tss_written s)"
  shows "deliver receive sent r =
    (rd_stopped (fold (on_read receive) chunks (new_reader r)), rd_receiver (fold (on_read receive) chunks (new_reader r)))"
proof -
  have "concat chunks = concat (map tcp_frame sent)" using sender_run_inv [OF assms(1)] assms(2,3,5) by simp
  with reader_after_chunks [OF reader_after_start [of receive r], of chunks] unframe_frames [OF assms(4)]
  show ?thesis by (auto simp: reader_after_def split: prod.splits)
qed

theorem tcp_sender_to_reader_witness:
  "rd_receiver (fold (on_read (\<lambda>r p. (Accepted, r @ [p]))) [[0], [1, 1, 0], [2, 2, 3]] (new_reader [])) = [[1], [2, 3]]"
proof -
  let ?s = "flush_output (send_packet [2, 3] (send_packet [1] sample_sender))"
  have "tss_stream ?s" "tss_output ?s = []" "tss_written ?s = [[0, 1, 1, 0, 2, 2, 3]]"
    by (simp_all add: flush_output_def send_packet_def sample_sender_def Let_def)
  with tcp_sender_to_reader [OF sample_sender_run, where chunks = "[[0], [1, 1, 0], [2, 2, 3]]" and r = "[]"
    and receive = "\<lambda>r p. (Accepted, r @ [p])"] show ?thesis by simp
qed

end
