(* ===== verification/Gb28181_Playback.thy ===== *)
theory Gb28181_Playback
  imports Gb28181_Tcp
begin

text \<open>
  \<open>media/gb28181/gb28181_playback_session.cpp\<close>: a recording a device sends as RTP over TCP is
  handed to one HTTP client as a chunked response.

  The operations are the handlers that run on the session's worker; \<open>run\<close> is cut at its
  suspension points, and what the network and the other components answer is an argument of each
  piece. \<open>pb_chunks\<close> are the HTTP chunks written in full, \<open>pb_last\<close> tells that the terminating
  chunk was written, \<open>pb_status\<close> the response statuses given so far, \<open>pb_released\<close> the port pairs
  given back to the pool, and \<open>pb_packets\<close> records the RTP packets accepted; only the code's own
  fields steer the operations. \<open>pb_reading\<close> is the coroutine in its reading loop.
\<close>

record playback_session =
  pb_payload_type :: u8
  pb_ssrc :: u32
  pb_local_port :: "u16 option"
  pb_listener :: bool
  pb_input :: bool
  pb_consumer :: bool
  pb_subscription :: bool
  pb_registered :: bool
  pb_reading :: bool
  pb_next_sequence :: "u16 option"
  pb_posted :: nat
  pb_status :: "nat list"
  pb_chunks :: "bytes list"
  pb_last :: bool
  pb_released :: "u16 list"
  pb_packets :: "rtp_packet list"

definition new_playback :: "u8 \<Rightarrow> u32 \<Rightarrow> playback_session" where
  "new_playback payload_type ssrc =
     \<lparr>pb_payload_type = payload_type, pb_ssrc = ssrc, pb_local_port = None, pb_listener = False, pb_input = False,
      pb_consumer = False, pb_subscription = False, pb_registered = True, pb_reading = False, pb_next_sequence = None,
      pb_posted = 0, pb_status = [], pb_chunks = [], pb_last = False, pb_released = [], pb_packets = []\<rparr>"

text \<open>\<open>shutdown\<close> posts \<open>safe_shutdown\<close> to the worker.\<close>

definition pb_shutdown :: "playback_session \<Rightarrow> playback_session" where
  "pb_shutdown s = s\<lparr>pb_posted := pb_posted s + 1\<rparr>"

text \<open>
  \<open>startup\<close>: \<open>acquired\<close> is the pool's answer, \<open>opened\<close>, \<open>reused\<close>, \<open>bound\<close>, \<open>listening\<close> whether the
  four socket calls succeed, \<open>subscribed\<close> whether the worker still takes shutdown subscriptions.
\<close>

definition pb_startup ::
  "bool \<Rightarrow> u16 option \<Rightarrow> bool \<Rightarrow> bool \<Rightarrow> bool \<Rightarrow> bool \<Rightarrow> bool \<Rightarrow> playback_session \<Rightarrow> u16 option \<times> playback_session" where
  "pb_startup stop_requested acquired opened reused bound listening subscribed s =
     (if stop_requested then (None, s)
      else
        let s1 = s\<lparr>pb_local_port := acquired\<rparr>
        in if acquired = None then (None, s1)
           else
             let s2 = s1\<lparr>pb_listener := opened\<rparr>
             in if \<not> opened \<or> \<not> reused \<or> \<not> bound \<or> \<not> listening then (None, s2)
                else let s3 = s2\<lparr>pb_subscription := subscribed\<rparr>
                     in (if subscribed then pb_local_port s3 else None, s3))"

definition pb_update_ssrc :: "u32 \<Rightarrow> playback_session \<Rightarrow> playback_session" where
  "pb_update_ssrc ssrc s = s\<lparr>pb_ssrc := ssrc\<rparr>"

text \<open>\<open>run\<close> up to the response header: a second client, or a session no longer registered, gets 409.\<close>

definition pb_attach :: "bool \<Rightarrow> playback_session \<Rightarrow> playback_session" where
  "pb_attach header_written s =
     (if \<not> pb_listener s \<or> pb_consumer s \<or> \<not> pb_registered s then s\<lparr>pb_status := pb_status s @ [409]\<rparr>
      else
        let s1 = s\<lparr>pb_consumer := True, pb_status := pb_status s @ [200]\<rparr>
        in if \<not> header_written then pb_shutdown s1 else s1)"

text \<open>The accept of the device's connection completes.\<close>

definition pb_accepted :: "bool \<Rightarrow> playback_session \<Rightarrow> playback_session" where
  "pb_accepted ok s =
     (if \<not> ok then pb_shutdown s
      else s\<lparr>pb_listener := False, pb_input := True, pb_reading := True, pb_next_sequence := None\<rparr>)"

text \<open>The read of a length fails, with \<open>count\<close> bytes read.\<close>

definition pb_input_ended :: "bool \<Rightarrow> nat \<Rightarrow> bool \<Rightarrow> bool \<Rightarrow> playback_session \<Rightarrow> playback_session" where
  "pb_input_ended eof count cancelled last_written s =
     (let s1 = (if eof \<and> count = 0 \<and> pb_next_sequence s \<noteq> None \<and> \<not> cancelled
                then s\<lparr>pb_last := last_written\<rparr> else s)
      in pb_shutdown (s1\<lparr>pb_reading := False\<rparr>))"

text \<open>The read of a datagram fails.\<close>

definition pb_datagram_failed :: "playback_session \<Rightarrow> playback_session" where
  "pb_datagram_failed s = pb_shutdown (s\<lparr>pb_reading := False\<rparr>)"

text \<open>A datagram is complete; \<open>written\<close> tells whether its chunk reaches the client.\<close>

definition pb_datagram :: "bool \<Rightarrow> bytes \<Rightarrow> playback_session \<Rightarrow> playback_session" where
  "pb_datagram written datagram s =
     (case rtp_packet_deserialize datagram of
        None \<Rightarrow> pb_shutdown (s\<lparr>pb_reading := False\<rparr>)
      | Some packet \<Rightarrow>
          if pkt_payload packet = [] \<or> ucast (rtp_pt (pkt_rtp packet)) \<noteq> pb_payload_type s \<or>
             rtp_ssrc (pkt_rtp packet) \<noteq> pb_ssrc s \<or>
             (case pb_next_sequence s of None \<Rightarrow> False | Some next \<Rightarrow> rtp_seq (pkt_rtp packet) \<noteq> next)
          then pb_shutdown (s\<lparr>pb_reading := False\<rparr>)
          else
            let s1 = s\<lparr>pb_next_sequence := Some (rtp_seq (pkt_rtp packet) + 1), pb_packets := pb_packets s @ [packet]\<rparr>
            in if written then s1\<lparr>pb_chunks := pb_chunks s1 @ [pkt_payload packet]\<rparr>
               else pb_shutdown (s1\<lparr>pb_reading := False\<rparr>))"

definition pb_safe_shutdown :: "playback_session \<Rightarrow> playback_session" where
  "pb_safe_shutdown s =
     (let s1 = s\<lparr>pb_posted := pb_posted s - 1, pb_registered := False, pb_subscription := False,
                 pb_listener := False, pb_input := False\<rparr>
      in case pb_local_port s1 of
           Some port \<Rightarrow> s1\<lparr>pb_released := pb_released s1 @ [port], pb_local_port := None\<rparr>
         | None \<Rightarrow> s1)"

text \<open>
  The reading loop on the bytes a device sends before it closes the connection, with a client
  that takes every chunk.
\<close>

function pb_read_stream :: "bytes \<Rightarrow> playback_session \<Rightarrow> playback_session" where
  "pb_read_stream input s =
     (if \<not> pb_reading s then s
      else if length input < 2 then pb_input_ended True (length input) False True s
      else
        let n = unat (be16_at input 0)
        in if n = 0 then pb_read_stream (drop 2 input) s
           else if length input - 2 < n then pb_datagram_failed s
           else pb_read_stream (drop (n + 2) input) (pb_datagram True (take n (drop 2 input)) s))"
  by pat_completeness auto
termination by (relation "measure (\<lambda>(input, s). length input)") auto

declare pb_read_stream.simps [simp del]

section \<open>Sessions in every order of events\<close>

inductive pb_run :: "playback_session \<Rightarrow> bool" where
  pb_started: "pb_startup False (Some port) True True True True True (new_playback pt ssrc) = (Some p, s) \<Longrightarrow> pb_run s"
| pb_attached: "pb_run s \<Longrightarrow> pb_run (pb_attach w s)"
| pb_device: "pb_run s \<Longrightarrow> pb_consumer s \<Longrightarrow> pb_listener s \<Longrightarrow> \<not> pb_reading s \<Longrightarrow> pb_run (pb_accepted True s)"
| pb_device_failed: "pb_run s \<Longrightarrow> pb_run (pb_accepted False s)"
| pb_packet: "pb_run s \<Longrightarrow> pb_reading s \<Longrightarrow> pb_run (pb_datagram w d s)"
| pb_packet_failed: "pb_run s \<Longrightarrow> pb_reading s \<Longrightarrow> pb_run (pb_datagram_failed s)"
| pb_ended: "pb_run s \<Longrightarrow> pb_reading s \<Longrightarrow> pb_run (pb_input_ended e n c w s)"
| pb_ssrc_changed: "pb_run s \<Longrightarrow> pb_run (pb_update_ssrc v s)"
| pb_stop: "pb_run s \<Longrightarrow> pb_run (pb_shutdown s)"
| pb_stopped: "pb_run s \<Longrightarrow> 0 < pb_posted s \<Longrightarrow> pb_run (pb_safe_shutdown s)"

fun consecutive :: "rtp_packet list \<Rightarrow> bool" where
  "consecutive (p # q # ps) \<longleftrightarrow> rtp_seq (pkt_rtp q) = rtp_seq (pkt_rtp p) + 1 \<and> consecutive (q # ps)"
| "consecutive _ \<longleftrightarrow> True"

definition pb_inv :: "playback_session \<Rightarrow> bool" where
  "pb_inv s \<longleftrightarrow>
     consecutive (pb_packets s) \<and>
     (pb_next_sequence s = (if pb_packets s = [] then None else Some (rtp_seq (pkt_rtp (last (pb_packets s))) + 1))) \<and>
     (\<forall>p \<in> set (pb_packets s). pkt_payload p \<noteq> []) \<and>
     (\<exists>lost. map pkt_payload (pb_packets s) = pb_chunks s @ lost \<and> length lost \<le> 1 \<and>
        (pb_reading s \<or> pb_last s \<longrightarrow> lost = [])) \<and>
     (pb_last s \<longrightarrow> pb_packets s \<noteq> []) \<and>
     (pb_reading s \<longrightarrow> \<not> pb_last s \<and> \<not> pb_listener s) \<and>
     (pb_listener s \<longrightarrow> pb_packets s = [] \<and> \<not> pb_last s) \<and>
     length (filter ((=) 200) (pb_status s)) = of_bool (pb_consumer s) \<and>
     (case pb_local_port s of Some port \<Rightarrow> pb_released s = [] | None \<Rightarrow> length (pb_released s) = 1)"

lemma consecutive_snoc:
  "consecutive (ps @ [p]) \<longleftrightarrow> consecutive ps \<and> (ps \<noteq> [] \<longrightarrow> rtp_seq (pkt_rtp p) = rtp_seq (pkt_rtp (last ps)) + 1)"
  by (induction ps rule: consecutive.induct) auto

lemmas pb_ops = pb_shutdown_def pb_startup_def pb_update_ssrc_def pb_attach_def pb_accepted_def pb_input_ended_def
  pb_datagram_failed_def pb_safe_shutdown_def

lemma pb_datagram_inv:
  assumes "pb_inv s" "pb_reading s"
  shows "pb_inv (pb_datagram w d s)"
proof (cases "rtp_packet_deserialize d")
  case None
  with assms show ?thesis by (auto simp: pb_datagram_def pb_shutdown_def pb_inv_def split: option.splits)
next
  case (Some packet)
  with assms show ?thesis
    by (auto simp: pb_datagram_def pb_shutdown_def pb_inv_def consecutive_snoc Let_def split: option.splits if_splits)
qed

lemma pb_run_inv: "pb_run s \<Longrightarrow> pb_inv s"
proof (induction rule: pb_run.induct)
  case (pb_packet s w d)
  then show ?case by (simp add: pb_datagram_inv)
next
  case (pb_stopped s)
  then show ?case by (auto simp: pb_inv_def pb_safe_shutdown_def Let_def split: option.splits)
qed (auto simp: pb_inv_def pb_ops new_playback_def Let_def split: option.splits if_splits)

section \<open>A whole recording\<close>

definition plays :: "playback_session \<Rightarrow> rtp_packet \<Rightarrow> bool" where
  "plays s p \<longleftrightarrow> packet_ok p \<and> packet_bytes p < 65536 \<and> pkt_payload p \<noteq> [] \<and>
     ucast (rtp_pt (pkt_rtp p)) = pb_payload_type s \<and> rtp_ssrc (pkt_rtp p) = pb_ssrc s"

definition played :: "rtp_packet list \<Rightarrow> playback_session \<Rightarrow> playback_session" where
  "played ps s = (if ps = [] then s else
     s\<lparr>pb_next_sequence := Some (rtp_seq (pkt_rtp (last ps)) + 1), pb_packets := pb_packets s @ ps,
       pb_chunks := pb_chunks s @ map pkt_payload ps\<rparr>)"

lemma pb_datagram_plays:
  assumes "plays s p" "pb_next_sequence s = None \<or> pb_next_sequence s = Some (rtp_seq (pkt_rtp p))"
  shows "pb_datagram True (wire p) s = played [p] s"
  using assms wire_reads [of p] by (auto simp: pb_datagram_def plays_def played_def Let_def)

lemma pb_read_frame:
  assumes "pb_reading s" "packet_ok p" "packet_bytes p < 65536"
  shows "pb_read_stream (tcp_frame (wire p) @ rest) s = pb_read_stream rest (pb_datagram True (wire p) s)"
proof -
  have len: "length (wire p) = packet_bytes p" "0 < packet_bytes p"
    using length_wire [OF assms(2)] by (simp_all add: packet_bytes_def)
  have "unat (be16_at (tcp_frame (wire p) @ rest) 0) = packet_bytes p"
    using len assms(3) by (simp add: tcp_frame_def byte_simps unat_of_nat)
  with len assms(1) show ?thesis
    by (subst pb_read_stream.simps) (simp add: tcp_frame_def Let_def)
qed

lemma pb_read_frames:
  "pb_reading s \<Longrightarrow> \<forall>p \<in> set ps. plays s p \<Longrightarrow> consecutive ps \<Longrightarrow>
   (case pb_next_sequence s of None \<Rightarrow> True | Some n \<Rightarrow> ps \<noteq> [] \<longrightarrow> rtp_seq (pkt_rtp (hd ps)) = n) \<Longrightarrow>
   pb_read_stream (concat (map (tcp_frame \<circ> wire) ps) @ rest) s = pb_read_stream rest (played ps s)"
proof (induction ps arbitrary: s)
  case Nil
  then show ?case by (simp add: played_def)
next
  case (Cons p ps)
  have p: "plays s p" using Cons.prems(2) by simp
  have "pb_read_stream (tcp_frame (wire p) @ concat (map (tcp_frame \<circ> wire) ps) @ rest) s =
    pb_read_stream (concat (map (tcp_frame \<circ> wire) ps) @ rest) (played [p] s)"
    using p Cons.prems(1,4) by (subst pb_read_frame) (auto simp: plays_def pb_datagram_plays [OF p] split: option.splits)
  also have "\<dots> = pb_read_stream rest (played ps (played [p] s))"
  proof (rule Cons.IH)
    show "pb_reading (played [p] s)" "\<forall>q \<in> set ps. plays (played [p] s) q"
      using Cons.prems(1,2) by (simp_all add: played_def plays_def)
    show "consecutive ps" using Cons.prems(3) by (cases ps) simp_all
    show "case pb_next_sequence (played [p] s) of None \<Rightarrow> True | Some n \<Rightarrow> ps \<noteq> [] \<longrightarrow> rtp_seq (pkt_rtp (hd ps)) = n"
      using Cons.prems(3) by (cases ps) (simp_all add: played_def)
  qed
  also have "played ps (played [p] s) = played (p # ps) s" by (simp add: played_def)
  finally show ?case by simp
qed

text \<open>
  C10: In every order of events, the client of a playback gets the payloads of RTP packets with
  consecutive sequence numbers, in order and each complete, with at most the last accepted one
  missing; a terminated response misses none. At most one client is served, and the port pair is
  given back at most once, exactly when the session no longer holds it.
\<close>

theorem playback_gap_free:
  assumes "pb_run s"
  shows "consecutive (pb_packets s) \<and>
    (\<exists>lost. map pkt_payload (pb_packets s) = pb_chunks s @ lost \<and> length lost \<le> 1 \<and> (pb_last s \<longrightarrow> lost = [])) \<and>
    length (filter ((=) 200) (pb_status s)) \<le> 1 \<and>
    length (pb_released s) = (if pb_local_port s = None then 1 else 0)"
  using pb_run_inv [OF assms] by (auto simp: pb_inv_def split: option.splits)

definition sample_playback :: playback_session where
  "sample_playback = snd (pb_startup False (Some 30000) True True True True True (new_playback 96 7))"

lemma sample_playback_run: "pb_run (pb_attach True sample_playback)"
proof -
  have "pb_startup False (Some 30000) True True True True True (new_playback 96 7) = (Some 30000, sample_playback)"
    by (simp add: sample_playback_def pb_startup_def new_playback_def)
  then show ?thesis by (intro pb_attached pb_started)
qed

theorem playback_gap_free_witness:
  "length (filter ((=) 200) (pb_status (pb_attach False (pb_attach True sample_playback)))) \<le> 1 \<and>
   pb_status (pb_attach False (pb_attach True sample_playback)) = [200, 409]"
  using playback_gap_free [OF pb_attached [OF sample_playback_run, of False]]
  by (simp add: pb_attach_def sample_playback_def pb_startup_def new_playback_def)

text \<open>
  A recording whose RTP packets belong to the session and have consecutive sequence numbers
  reaches the client whole: reading the framed packets up to the end of the connection writes
  their payloads as chunks, in order, and terminates the response.
\<close>

lemma playback_delivers_recording:
  assumes "pb_reading s" "pb_next_sequence s = None" "ps \<noteq> []" "consecutive ps"
    and "\<forall>p \<in> set ps. plays s p"
  shows "pb_chunks (pb_read_stream (concat (map (tcp_frame \<circ> wire) ps)) s) = pb_chunks s @ map pkt_payload ps \<and>
    pb_last (pb_read_stream (concat (map (tcp_frame \<circ> wire) ps)) s)"
proof -
  have "pb_read_stream (concat (map (tcp_frame \<circ> wire) ps)) s = pb_read_stream [] (played ps s)"
    using pb_read_frames [of s ps "[]"] assms by simp
  moreover have "pb_reading (played ps s)" using assms(1) by (simp add: played_def)
  ultimately show ?thesis using assms(3)
    by (simp add: pb_read_stream.simps [of "[]"] pb_input_ended_def pb_shutdown_def played_def Let_def)
qed

end
