(* ===== verification/Gb28181_Sender.thy ===== *)
theory Gb28181_Sender
  imports Rtp_Ts_Pack Gb28181_Playback Media_Types
begin

text \<open>
  \<open>media/gb28181/gb28181_rtp_sender.cpp\<close>: the program stream of a media stream sent as RTP, with
  the creation of the PS packer in \<open>rtp-payload.c\<close>. The packets given to the packet handler are
  collected in \<open>rs_packets\<close>; \<open>rs_ends\<close> counts the calls of the end handler and \<open>rs_posted\<close> the
  posted shutdowns. A frame's handling is an option because the packer's loop is: \<open>None\<close> would
  be a call that never returns.
\<close>

record mpeg_ps_frame =
  psf_track :: track_id
  psf_key_frame :: bool
  psf_payload :: "bytes option"
  psf_media_timestamp :: u32

record rtp_sender =
  rs_stream :: bool
  rs_handlers :: bool
  rs_ps_output :: bool
  rs_packetizer :: "rtp_encode_ts option"
  rs_timestamp_base :: u32
  rs_first_media_timestamp :: u32
  rs_waiting_video_track :: "track_id option"
  rs_packets :: "bytes list"
  rs_ends :: nat
  rs_posted :: nat

definition new_rtp_sender :: rtp_sender where
  "new_rtp_sender =
     \<lparr>rs_stream = True, rs_handlers = True, rs_ps_output = False, rs_packetizer = None, rs_timestamp_base = 0,
      rs_first_media_timestamp = 0, rs_waiting_video_track = None, rs_packets = [], rs_ends = 0, rs_posted = 0\<rparr>"

text \<open>\<open>rtp_payload_encode_create\<close> for the encoding PS: the types 72 to 76 are looked up by number and refused.\<close>

definition ps_encode_create :: "u8 \<Rightarrow> u16 \<Rightarrow> u32 \<Rightarrow> rtp_encode_ts option" where
  "ps_encode_create payload seq ssrc =
     (if payload < 72 \<or> payload > 76 then rtp_ts_pack_create s_max_packet_size payload seq ssrc else None)"

definition allocate_packet :: "nat \<Rightarrow> bool" where
  "allocate_packet bytes \<longleftrightarrow> 0 < bytes \<and> bytes \<le> 2048"

definition packet_callback :: "bytes \<Rightarrow> bytes list \<Rightarrow> int \<times> bytes list" where
  "packet_callback packet out = (0, out @ [packet])"

text \<open>\<open>startup\<close> with the two numbers drawn from the random device and whether there is a PS output.\<close>

definition sender_startup ::
  "u32 \<Rightarrow> u16 \<Rightarrow> bool \<Rightarrow> media_track list \<Rightarrow> u8 \<Rightarrow> u32 \<Rightarrow> rtp_sender \<Rightarrow> bool \<times> rtp_sender" where
  "sender_startup base seq has_ps_output tracks payload_type ssrc s =
     (let s1 = s\<lparr>rs_timestamp_base := base, rs_packetizer := ps_encode_create payload_type seq ssrc\<rparr>
      in if rs_packetizer s1 = None then (False, s1)
         else
           let s2 = (case find (\<lambda>t. mt_kind t = Video) tracks of
                       Some t \<Rightarrow> s1\<lparr>rs_waiting_video_track := Some (mt_id t)\<rparr> | None \<Rightarrow> s1)
           in if \<not> has_ps_output then (False, s2) else (True, s2\<lparr>rs_ps_output := True\<rparr>))"

definition sender_shutdown :: "rtp_sender \<Rightarrow> rtp_sender" where
  "sender_shutdown s = s\<lparr>rs_posted := rs_posted s + 1\<rparr>"

definition on_ps_frame :: "mpeg_ps_frame \<Rightarrow> rtp_sender \<Rightarrow> rtp_sender option" where
  "on_ps_frame frame s =
     (if \<not> rs_stream s then Some s
      else case psf_payload frame of
        None \<Rightarrow> Some s
      | Some payload \<Rightarrow>
          let starts_media = (rs_waiting_video_track s \<noteq> None)
          in if starts_media \<and>
                (psf_track frame \<noteq> the (rs_waiting_video_track s) \<or> \<not> psf_key_frame frame) then Some s
             else
               let s1 = (if starts_media then s\<lparr>rs_first_media_timestamp := psf_media_timestamp frame\<rparr> else s);
                   timestamp = rs_timestamp_base s1 + psf_media_timestamp frame - rs_first_media_timestamp s1
               in case rtp_ts_pack_input allocate_packet packet_callback (the (rs_packetizer s1)) payload timestamp (rs_packets s1) of
                    None \<Rightarrow> None
                  | Some (result, packer, out) \<Rightarrow>
                      let s2 = s1\<lparr>rs_packetizer := Some packer, rs_packets := out\<rparr>
                      in if result < 0 then Some ((sender_shutdown s2)\<lparr>rs_ends := rs_ends s2 + 1\<rparr>)
                         else if starts_media then Some (s2\<lparr>rs_waiting_video_track := None\<rparr>)
                         else Some s2)"

definition sender_on_end :: "rtp_sender \<Rightarrow> rtp_sender" where
  "sender_on_end s = (if rs_stream s then s\<lparr>rs_ends := rs_ends s + 1\<rparr> else s)"

definition rtp_sender_safe_shutdown :: "rtp_sender \<Rightarrow> rtp_sender" where
  "rtp_sender_safe_shutdown s =
     s\<lparr>rs_posted := rs_posted s - 1, rs_handlers := False, rs_stream := False, rs_ps_output := False,
       rs_packetizer := None\<rparr>"

text \<open>The frames of a PS output, one after another.\<close>

fun on_ps_frames :: "mpeg_ps_frame list \<Rightarrow> rtp_sender \<Rightarrow> rtp_sender option" where
  "on_ps_frames [] s = Some s"
| "on_ps_frames (f # fs) s = (case on_ps_frame f s of None \<Rightarrow> None | Some s' \<Rightarrow> on_ps_frames fs s')"

section \<open>What a sender emits\<close>

text \<open>The frames it sends: from the first key frame of the video track on, those with a payload.\<close>

fun sent_frames :: "track_id option \<Rightarrow> mpeg_ps_frame list \<Rightarrow> mpeg_ps_frame list" where
  "sent_frames waiting [] = []"
| "sent_frames waiting (f # fs) =
     (if psf_payload f = None then sent_frames waiting fs
      else case waiting of
        Some track \<Rightarrow> if psf_track f = track \<and> psf_key_frame f then f # sent_frames None fs else sent_frames waiting fs
      | None \<Rightarrow> f # sent_frames None fs)"

text \<open>
  A sender that emitted \<open>ps\<close>: its packets are numbered without a gap up to the packer's next
  sequence number, and belong to one payload type and source.
\<close>

definition emitted :: "u8 \<Rightarrow> u32 \<Rightarrow> rtp_packet list \<Rightarrow> rtp_sender \<Rightarrow> bool" where
  "emitted pt ssrc ps s \<longleftrightarrow>
     rs_stream s \<and> rs_packets s = map wire ps \<and> consecutive ps \<and>
     (\<forall>p \<in> set ps. packet_ok p \<and> pkt_payload p \<noteq> [] \<and> packet_bytes p \<le> 1200 \<and>
        rtp_pt (pkt_rtp p) = ucast pt \<and> rtp_ssrc (pkt_rtp p) = ssrc) \<and>
     (\<exists>packer. rs_packetizer s = Some packer \<and> packer_ok packer \<and> ts_size packer \<le> 1200 \<and>
        rtp_pt (pkt_rtp (ts_pkt packer)) = ucast pt \<and> rtp_ssrc (pkt_rtp (ts_pkt packer)) = ssrc \<and>
        (ps \<noteq> [] \<longrightarrow> rtp_seq (pkt_rtp (ts_pkt packer)) = rtp_seq (pkt_rtp (last ps)) + 1))"

lemma packet_callback_eq: "packet_callback = (\<lambda>p out. (0, out @ [p]))"
  by (simp add: packet_callback_def fun_eq_iff)

lemma startup_emits:
  assumes "sender_startup base seq True tracks pt ssrc new_rtp_sender = (True, s)"
  shows "emitted pt ssrc [] s"
proof -
  from assms obtain packer where p: "ps_encode_create pt seq ssrc = Some packer" "rs_packetizer s = Some packer"
    by (auto simp: sender_startup_def Let_def new_rtp_sender_def split: if_splits option.splits)
  then have "packer_ok packer"
    by (intro create_packer_ok [of s_max_packet_size pt seq ssrc])
      (auto simp: ps_encode_create_def s_max_packet_size_def split: if_splits)
  moreover have "ts_size packer \<le> 1200" "rtp_pt (pkt_rtp (ts_pkt packer)) = ucast pt" "rtp_ssrc (pkt_rtp (ts_pkt packer)) = ssrc"
    using p by (auto simp: ps_encode_create_def rtp_ts_pack_create_def Let_def s_max_packet_size_def RTP_FIXED_HEADER_def
        TS_PACKET_SIZE_def split: if_splits)
  ultimately show ?thesis using assms p
    by (auto simp: emitted_def sender_startup_def Let_def new_rtp_sender_def split: if_splits option.splits)
qed

lemma consecutive_append:
  "consecutive (ps @ qs) \<longleftrightarrow> consecutive ps \<and> consecutive qs \<and>
     (ps \<noteq> [] \<longrightarrow> qs \<noteq> [] \<longrightarrow> rtp_seq (pkt_rtp (hd qs)) = rtp_seq (pkt_rtp (last ps)) + 1)"
proof (induction ps)
  case (Cons p ps)
  then show ?case by (cases ps; cases qs) auto
qed simp

lemma numbered_consecutive:
  assumes "map (\<lambda>p. rtp_seq (pkt_rtp p)) qs = map (\<lambda>i. n + of_nat i) [0..<length qs]"
  shows "consecutive qs \<and> (qs \<noteq> [] \<longrightarrow> rtp_seq (pkt_rtp (hd qs)) = n \<and>
    rtp_seq (pkt_rtp (last qs)) + 1 = n + of_nat (length qs))"
  using assms
proof (induction qs rule: rev_induct)
  case (snoc q qs)
  then have "map (\<lambda>p. rtp_seq (pkt_rtp p)) qs = map (\<lambda>i. n + of_nat i) [0..<length qs]"
    "rtp_seq (pkt_rtp q) = n + of_nat (length qs)" by simp_all
  with snoc.IH show ?case by (cases "qs = []") (auto simp: consecutive_snoc)
qed simp

text \<open>The time stamp of a frame, once the first one is known.\<close>

definition rtp_time :: "rtp_sender \<Rightarrow> mpeg_ps_frame \<Rightarrow> u32" where
  "rtp_time s f = rs_timestamp_base s + psf_media_timestamp f - rs_first_media_timestamp s"

definition sends :: "rtp_sender \<Rightarrow> mpeg_ps_frame \<Rightarrow> bool" where
  "sends s f \<longleftrightarrow> psf_payload f \<noteq> None \<and>
     (case rs_waiting_video_track s of None \<Rightarrow> True | Some track \<Rightarrow> psf_track f = track \<and> psf_key_frame f)"

lemma on_ps_frame_skips: "emitted pt ssrc ps s \<Longrightarrow> \<not> sends s f \<Longrightarrow> on_ps_frame f s = Some s"
  by (auto simp: on_ps_frame_def sends_def Let_def split: option.splits)

lemma on_ps_frame_sends:
  assumes "emitted pt ssrc ps s" "sends s f"
  shows "\<exists>s' qs. on_ps_frame f s = Some s' \<and> emitted pt ssrc (ps @ qs) s' \<and>
    concat (map pkt_payload qs) = the (psf_payload f) \<and> rs_waiting_video_track s' = None \<and>
    rs_timestamp_base s' = rs_timestamp_base s \<and>
    rs_first_media_timestamp s' =
      (if rs_waiting_video_track s = None then rs_first_media_timestamp s else psf_media_timestamp f) \<and>
    (\<forall>q \<in> set qs. rtp_timestamp (pkt_rtp q) = rtp_time s' f)"
proof -
  obtain packer where packer: "rs_packetizer s = Some packer" "packer_ok packer" "ts_size packer \<le> 1200"
    "rtp_pt (pkt_rtp (ts_pkt packer)) = ucast pt" "rtp_ssrc (pkt_rtp (ts_pkt packer)) = ssrc"
    "ps \<noteq> [] \<Longrightarrow> rtp_seq (pkt_rtp (ts_pkt packer)) = rtp_seq (pkt_rtp (last ps)) + 1"
    using assms(1) by (auto simp: emitted_def)
  obtain payload where payload: "psf_payload f = Some payload" using assms(2) by (auto simp: sends_def)
  define first where
    "first = (if rs_waiting_video_track s = None then rs_first_media_timestamp s else psf_media_timestamp f)"
  define ts where "ts = rs_timestamp_base s + psf_media_timestamp f - first"
  have alloc: "12 < n \<Longrightarrow> n \<le> ts_size packer \<Longrightarrow> allocate_packet n" for n
    using packer(3) by (simp add: allocate_packet_def)
  from pack_input_emits [where alloc = allocate_packet and data = payload and timestamp = ts and out = "rs_packets s",
    OF packer(2) alloc]
  obtain packer' qs where q:
    "rtp_ts_pack_input allocate_packet packet_callback packer payload ts (rs_packets s) = Some (0, packer', rs_packets s @ map wire qs)"
    "packer_ok packer'" "ts_size packer' = ts_size packer" "concat (map pkt_payload qs) = payload"
    "\<forall>p \<in> set qs. packet_ok p \<and> 0 < length (pkt_payload p) \<and> packet_bytes p \<le> ts_size packer"
    "map pkt_rtp qs = map (\<lambda>i. (pkt_rtp (ts_pkt packer))\<lparr>rtp_timestamp := ts,
        rtp_seq := rtp_seq (pkt_rtp (ts_pkt packer)) + of_nat i\<rparr>) [0..<length qs]"
    "pkt_rtp (ts_pkt packer') = (pkt_rtp (ts_pkt packer))\<lparr>rtp_timestamp := ts,
        rtp_seq := rtp_seq (pkt_rtp (ts_pkt packer)) + of_nat (length qs)\<rparr>"
    unfolding packet_callback_eq by blast
  define s' where "s' = s\<lparr>rs_first_media_timestamp := first, rs_packetizer := Some packer',
    rs_packets := rs_packets s @ map wire qs, rs_waiting_video_track := None\<rparr>"
  have run: "on_ps_frame f s = Some s'"
    using assms packer(1) payload q(1)
    by (cases "rs_waiting_video_track s")
      (simp_all add: on_ps_frame_def emitted_def sends_def s'_def first_def ts_def)
  have fields: "rtp_pt (pkt_rtp p) = ucast pt \<and> rtp_ssrc (pkt_rtp p) = ssrc \<and> rtp_timestamp (pkt_rtp p) = ts"
    if "p \<in> set qs" for p
  proof -
    have "pkt_rtp p \<in> set (map pkt_rtp qs)" using that by simp
    then show ?thesis unfolding q(6) by (auto simp: packer(4,5))
  qed
  have "map (\<lambda>p. rtp_seq (pkt_rtp p)) qs = map (\<lambda>i. rtp_seq (pkt_rtp (ts_pkt packer)) + of_nat i) [0..<length qs]"
    using arg_cong [OF q(6), of "map rtp_seq"] by (simp add: o_def)
  note seqs = numbered_consecutive [OF this]
  have "emitted pt ssrc (ps @ qs) s'"
    unfolding emitted_def
  proof (intro conjI ballI)
    show "consecutive (ps @ qs)" using assms(1) seqs packer(6) by (auto simp: emitted_def consecutive_append)
    show "\<exists>packer. rs_packetizer s' = Some packer \<and> packer_ok packer \<and> ts_size packer \<le> 1200 \<and>
        rtp_pt (pkt_rtp (ts_pkt packer)) = ucast pt \<and> rtp_ssrc (pkt_rtp (ts_pkt packer)) = ssrc \<and>
        (ps @ qs \<noteq> [] \<longrightarrow> rtp_seq (pkt_rtp (ts_pkt packer)) = rtp_seq (pkt_rtp (last (ps @ qs))) + 1)"
      using q(2,3,7) packer seqs
      by (intro exI [of _ packer'], cases "qs = []") (auto simp: s'_def last_append)
  qed (use assms(1) q(5) packer(3) fields in \<open>auto simp: emitted_def s'_def intro: order_trans\<close>)
  then show ?thesis
    using run q(4) payload fields
    by (intro exI [of _ s'] exI [of _ qs]) (auto simp: s'_def first_def rtp_time_def ts_def)
qed

lemma sent_frames_step:
  "sent_frames (rs_waiting_video_track s) (f # fs) =
     (if sends s f then f # sent_frames None fs else sent_frames (rs_waiting_video_track s) fs)"
  by (auto simp: sends_def split: option.splits)

lemma rtp_time_cong:
  "rs_timestamp_base s' = rs_timestamp_base s \<Longrightarrow> rs_first_media_timestamp s' = rs_first_media_timestamp s \<Longrightarrow>
   rtp_time s' f = rtp_time s f"
  by (simp add: rtp_time_def)

lemma on_ps_frames_emits:
  "emitted pt ssrc ps s \<Longrightarrow>
   \<exists>s' qs. on_ps_frames fs s = Some s' \<and> emitted pt ssrc (ps @ qs) s' \<and>
     concat (map pkt_payload qs) = concat (map (\<lambda>f. the (psf_payload f)) (sent_frames (rs_waiting_video_track s) fs)) \<and>
     rs_timestamp_base s' = rs_timestamp_base s \<and>
     (rs_waiting_video_track s = None \<longrightarrow> rs_first_media_timestamp s' = rs_first_media_timestamp s) \<and>
     (\<forall>q \<in> set qs. \<exists>f \<in> set (sent_frames (rs_waiting_video_track s) fs). rtp_timestamp (pkt_rtp q) = rtp_time s' f)"
proof (induction fs arbitrary: ps s)
  case Nil
  then show ?case by (intro exI [of _ s] exI [of _ "[]"]) simp
next
  case (Cons f fs)
  show ?case
  proof (cases "sends s f")
    case False
    with Cons.IH [OF Cons.prems] on_ps_frame_skips [OF Cons.prems False] show ?thesis
      unfolding sent_frames_step by simp
  next
    case True
    from on_ps_frame_sends [OF Cons.prems True] obtain s1 qs1 where s1: "on_ps_frame f s = Some s1"
      "emitted pt ssrc (ps @ qs1) s1" "concat (map pkt_payload qs1) = the (psf_payload f)"
      "rs_waiting_video_track s1 = None" "rs_timestamp_base s1 = rs_timestamp_base s"
      "rs_waiting_video_track s = None \<Longrightarrow> rs_first_media_timestamp s1 = rs_first_media_timestamp s"
      "\<forall>q \<in> set qs1. rtp_timestamp (pkt_rtp q) = rtp_time s1 f" by auto
    from Cons.IH [OF s1(2)] s1(4) obtain s2 qs2 where s2: "on_ps_frames fs s1 = Some s2"
      "emitted pt ssrc ((ps @ qs1) @ qs2) s2"
      "concat (map pkt_payload qs2) = concat (map (\<lambda>f. the (psf_payload f)) (sent_frames None fs))"
      "rs_timestamp_base s2 = rs_timestamp_base s1" "rs_first_media_timestamp s2 = rs_first_media_timestamp s1"
      "\<forall>q \<in> set qs2. \<exists>f \<in> set (sent_frames None fs). rtp_timestamp (pkt_rtp q) = rtp_time s2 f" by auto
    have "rtp_time s2 f = rtp_time s1 f" using s2(4,5) by (rule rtp_time_cong)
    with s1 s2 True show ?thesis
      unfolding sent_frames_step by (intro exI [of _ s2] exI [of _ "qs1 @ qs2"]) auto
  qed
qed


definition sample_tracks :: "media_track list" where
  "sample_tracks = [\<lparr>mt_id = 1, mt_kind = Video, mt_codec = H264, mt_clock_rate = 90000,
                     mt_channel_count = 0, mt_codec_config = []\<rparr>]"

definition sample_frames :: "mpeg_ps_frame list" where
  "sample_frames =
     [\<lparr>psf_track = 1, psf_key_frame = False, psf_payload = Some [9], psf_media_timestamp = 0\<rparr>,
      \<lparr>psf_track = 1, psf_key_frame = True, psf_payload = Some [0, 0, 1, 0xba], psf_media_timestamp = 3600\<rparr>,
      \<lparr>psf_track = 1, psf_key_frame = False, psf_payload = Some [0, 0, 1, 0xe0], psf_media_timestamp = 7200\<rparr>]"

lemma sample_startup:
  "sender_startup 5 65535 True sample_tracks 96 7 new_rtp_sender =
     (True, snd (sender_startup 5 65535 True sample_tracks 96 7 new_rtp_sender))"
  by (simp add: sender_startup_def new_rtp_sender_def ps_encode_create_def rtp_ts_pack_create_def Let_def
      RTP_PAYLOAD_MP2T_def split: option.splits)

lemma sample_waiting:
  "rs_waiting_video_track (snd (sender_startup 5 65535 True sample_tracks 96 7 new_rtp_sender)) = Some 1"
  by (simp add: sender_startup_def new_rtp_sender_def ps_encode_create_def rtp_ts_pack_create_def Let_def
      RTP_PAYLOAD_MP2T_def sample_tracks_def)


lemma ucast_7_bits: "(pt :: u8) < 128 \<Longrightarrow> ucast (ucast pt :: 7 word) = pt"
  by (simp add: word_less_nat_alt unsigned_ucast_eq word_eq_iff_unsigned [where ?'a = nat] unsigned_take_bit_eq take_bit_nat_eq_self)

text \<open>
  C6: End to end over TCP: the program stream a sender puts into RTP packets and frames for TCP
  reaches the HTTP client of a playback session with the same payload type and source: the chunks
  are exactly the bytes of the frames from the first key frame on, and the response is terminated.
\<close>

theorem sender_to_playback:
  assumes "sender_startup base seq True tracks pt ssrc new_rtp_sender = (True, s)" "pt < 128"
    and "on_ps_frames frames s = Some s'" "rs_packets s' \<noteq> []"
    and "pb_reading b" "pb_next_sequence b = None" "pb_payload_type b = pt" "pb_ssrc b = ssrc" "pb_chunks b = []"
  shows "concat (pb_chunks (pb_read_stream (concat (map tcp_frame (rs_packets s'))) b)) =
      concat (map (\<lambda>f. the (psf_payload f)) (sent_frames (rs_waiting_video_track s) frames)) \<and>
    pb_last (pb_read_stream (concat (map tcp_frame (rs_packets s'))) b)"
proof -
  from on_ps_frames_emits [OF startup_emits [OF assms(1)], of frames] assms(3)
  obtain ps where ps: "emitted pt ssrc ps s'"
    "concat (map pkt_payload ps) = concat (map (\<lambda>f. the (psf_payload f)) (sent_frames (rs_waiting_video_track s) frames))"
    by auto
  note pt = ucast_7_bits [OF assms(2)]
  have plays: "\<forall>p \<in> set ps. plays b p"
    using ps(1) assms(7,8) pt by (auto simp: emitted_def plays_def)
  have "pb_read_stream (concat (map (tcp_frame \<circ> wire) ps)) b = pb_read_stream [] (played ps b)"
    using pb_read_frames [of b ps "[]"] assms(5,6) plays ps(1) by (simp add: emitted_def)
  with ps assms(4-6,9) show ?thesis
    by (simp add: emitted_def pb_read_stream.simps [of "[]"] pb_input_ended_def pb_shutdown_def played_def Let_def)
qed

theorem sender_to_playback_witness:
  "\<exists>s'. on_ps_frames sample_frames (snd (sender_startup 5 65535 True sample_tracks 96 7 new_rtp_sender)) = Some s' \<and>
     concat (pb_chunks (pb_read_stream (concat (map tcp_frame (rs_packets s')))
       ((new_playback 96 7)\<lparr>pb_reading := True\<rparr>))) = [0, 0, 1, 0xba, 0, 0, 1, 0xe0]"
proof -
  obtain s' ps where s': "on_ps_frames sample_frames (snd (sender_startup 5 65535 True sample_tracks 96 7 new_rtp_sender)) = Some s'"
    "emitted 96 7 ps s'" "concat (map pkt_payload ps) = [0, 0, 1, 0xba, 0, 0, 1, 0xe0]"
    using on_ps_frames_emits [OF startup_emits [OF sample_startup], of sample_frames] sample_waiting
    by (auto simp: sample_frames_def)
  then have "rs_packets s' \<noteq> []" by (auto simp: emitted_def)
  with s' sample_waiting sender_to_playback [OF sample_startup, of sample_frames s' "(new_playback 96 7)\<lparr>pb_reading := True\<rparr>"]
  show ?thesis by (auto simp: sample_frames_def new_playback_def)
qed

end
