(* ===== verification/Gb28181_Receiver.thy ===== *)
theory Gb28181_Receiver
  imports Media_Stream Gb28181_Tcp
begin

text \<open>
  \<open>media/gb28181/gb28181_rtp_receiver.cpp\<close> with \<open>media_track_from_avstream_config\<close> of
  \<open>media/codec/codec_utils.cpp\<close>: the program stream of a device becomes a media stream. The codecs
  announced by the program stream map fix a topology, the first packets the tracks, and then
  every packet is published as a frame.

  The RTP demuxer behind \<open>receive_rtp\<close> is the argument \<open>demux\<close>; the answer of the bit-stream
  converter \<open>avpkt2bs_input\<close> is an argument of the packet handler, \<open>None\<close> for a null buffer; the two
  converters of configuration records are the arguments \<open>avcc\<close> and \<open>hvcc\<close>.
\<close>

section \<open>Codecs\<close>

definition PSI_STREAM_H264 :: int where "PSI_STREAM_H264 = 0x1b"
definition PSI_STREAM_H265 :: int where "PSI_STREAM_H265 = 0x24"
definition PSI_STREAM_AAC :: int where "PSI_STREAM_AAC = 0x0f"
definition PSI_STREAM_AUDIO_G711A :: int where "PSI_STREAM_AUDIO_G711A = 0x90"
definition PSI_STREAM_AUDIO_G711U :: int where "PSI_STREAM_AUDIO_G711U = 0x91"

definition AVCODEC_VIDEO_H264 :: int where "AVCODEC_VIDEO_H264 = 4"
definition AVCODEC_VIDEO_H265 :: int where "AVCODEC_VIDEO_H265 = 5"
definition AVCODEC_AUDIO_PCM :: int where "AVCODEC_AUDIO_PCM = 0x10000"
definition AVCODEC_AUDIO_G711A :: int where "AVCODEC_AUDIO_G711A = 0x10001"
definition AVCODEC_AUDIO_G711U :: int where "AVCODEC_AUDIO_G711U = 0x10002"
definition AVCODEC_AUDIO_AAC :: int where "AVCODEC_AUDIO_AAC = 0x10007"
definition AVCODEC_TEXT_WEBVTT :: int where "AVCODEC_TEXT_WEBVTT = 0x20000"

lemmas codec_numbers = PSI_STREAM_H264_def PSI_STREAM_H265_def PSI_STREAM_AAC_def PSI_STREAM_AUDIO_G711A_def
  PSI_STREAM_AUDIO_G711U_def AVCODEC_VIDEO_H264_def AVCODEC_VIDEO_H265_def AVCODEC_AUDIO_PCM_def
  AVCODEC_AUDIO_G711A_def AVCODEC_AUDIO_G711U_def AVCODEC_AUDIO_AAC_def AVCODEC_TEXT_WEBVTT_def

text \<open>\<open>mpeg_stream_type_audio\<close>: AAC, MPEG-4 AAC, LATM, MPEG-1 and MP3 audio, AC3, DTS, EAC3, SVAC, G.711, G.722, G.723, G.729, Opus.\<close>

definition mpeg_stream_type_audio :: "int \<Rightarrow> bool" where
  "mpeg_stream_type_audio codecid \<longleftrightarrow>
     codecid \<in> set [0x0f, 0x1c, 0x11, 0x03, 0x04, 0x81, 0x8a, 0x87, 0x9b, 0x90, 0x91, 0x92, 0x93, 0x99, 0x9c]"

definition codec_from_ps :: "int \<Rightarrow> codec_id option" where
  "codec_from_ps codecid =
     (if codecid = PSI_STREAM_H264 then Some H264
      else if codecid = PSI_STREAM_H265 then Some H265
      else if codecid = PSI_STREAM_AAC then Some AAC
      else if codecid = PSI_STREAM_AUDIO_G711A then Some G711a
      else if codecid = PSI_STREAM_AUDIO_G711U then Some G711u
      else None)"

definition codec_from_avpacket :: "int \<Rightarrow> codec_id option" where
  "codec_from_avpacket codecid =
     (if codecid = AVCODEC_VIDEO_H264 then Some H264
      else if codecid = AVCODEC_VIDEO_H265 then Some H265
      else if codecid = AVCODEC_AUDIO_AAC then Some AAC
      else if codecid = AVCODEC_AUDIO_G711A then Some G711a
      else if codecid = AVCODEC_AUDIO_G711U then Some G711u
      else None)"

definition is_video :: "codec_id \<Rightarrow> bool" where
  "is_video codec \<longleftrightarrow> codec = H264 \<or> codec = H265"

definition video_track_id :: track_id where "video_track_id = 1"
definition audio_track_id :: track_id where "audio_track_id = 2"

record avstream =
  av_stream :: int
  av_codecid :: int
  av_channels :: int
  av_sample_rate :: int
  av_extra :: "bytes option"

record avpacket =
  ap_stream :: "avstream option"
  ap_pts :: int
  ap_dts :: int
  ap_key :: bool

definition media_track_from_avstream_config ::
  "(bytes \<Rightarrow> bytes) \<Rightarrow> (bytes \<Rightarrow> bytes) \<Rightarrow> avstream \<Rightarrow> track_id \<Rightarrow> track_id \<Rightarrow> media_track option" where
  "media_track_from_avstream_config avcc hvcc input video_id audio_id =
     (let extra = (case av_extra input of None \<Rightarrow> [] | Some e \<Rightarrow> e)
      in if av_codecid input = AVCODEC_VIDEO_H264 \<and> extra \<noteq> [] then
           (let config = avcc extra
            in if config \<noteq> [] then Some \<lparr>mt_id = video_id, mt_kind = Video, mt_codec = H264, mt_clock_rate = 90000,
                                         mt_channel_count = 0, mt_codec_config = config\<rparr> else None)
         else if av_codecid input = AVCODEC_VIDEO_H265 \<and> extra \<noteq> [] then
           (let config = hvcc extra
            in if config \<noteq> [] then Some \<lparr>mt_id = video_id, mt_kind = Video, mt_codec = H265, mt_clock_rate = 90000,
                                         mt_channel_count = 0, mt_codec_config = config\<rparr> else None)
         else if av_codecid input = AVCODEC_AUDIO_AAC \<and> extra \<noteq> [] \<and> av_sample_rate input > 0 \<and> av_channels input > 0 then
           Some \<lparr>mt_id = audio_id, mt_kind = Audio, mt_codec = AAC, mt_clock_rate = word_of_int (av_sample_rate input),
                 mt_channel_count = word_of_int (av_channels input), mt_codec_config = extra\<rparr>
         else if (av_codecid input = AVCODEC_AUDIO_G711A \<or> av_codecid input = AVCODEC_AUDIO_G711U) \<and>
                 av_sample_rate input = 8000 \<and> av_channels input = 1 then
           Some \<lparr>mt_id = audio_id, mt_kind = Audio,
                 mt_codec = (if av_codecid input = AVCODEC_AUDIO_G711A then G711a else G711u),
                 mt_clock_rate = 8000, mt_channel_count = 1, mt_codec_config = []\<rparr>
         else None)"

section \<open>The receiver\<close>

record ps_topology =
  pt_video :: "codec_id option"
  pt_audio :: "codec_id option"
  pt_unsupported_audio :: bool
  pt_invalid :: bool

definition no_topology :: ps_topology where
  "no_topology = \<lparr>pt_video = None, pt_audio = None, pt_unsupported_audio = False, pt_invalid = False\<rparr>"

record rtp_receiver =
  rr_stream_id :: string
  rr_payload_type :: u8
  rr_expected_ssrc :: u32
  rr_demuxer :: bool
  rr_stream :: "(stream_ref \<times> media_stream) option"
  rr_pending_topology :: ps_topology
  rr_announced_topology :: "ps_topology option"
  rr_video_codec :: "codec_id option"
  rr_audio_codec :: "codec_id option"
  rr_video_track :: "media_track option"
  rr_audio_track :: "media_track option"
  rr_video_stream :: "int option"
  rr_audio_stream :: "int option"

definition new_rtp_receiver :: "string \<Rightarrow> u8 \<Rightarrow> u32 \<Rightarrow> rtp_receiver" where
  "new_rtp_receiver stream_id payload_type expected_ssrc =
     \<lparr>rr_stream_id = stream_id, rr_payload_type = payload_type, rr_expected_ssrc = expected_ssrc, rr_demuxer = False,
      rr_stream = None, rr_pending_topology = no_topology, rr_announced_topology = None, rr_video_codec = None,
      rr_audio_codec = None, rr_video_track = None, rr_audio_track = None, rr_video_stream = None, rr_audio_stream = None\<rparr>"

text \<open>\<open>startup\<close> with the address of the new stream and the answers of the demuxer library.\<close>

definition receiver_startup :: "stream_ref \<Rightarrow> worker \<Rightarrow> bool \<Rightarrow> bool \<Rightarrow> rtp_receiver \<Rightarrow> bool \<times> rtp_receiver" where
  "receiver_startup ref w created configured r =
     (let r1 = r\<lparr>rr_stream := Some (ref, new_media_stream (rr_stream_id r) w), rr_demuxer := created\<rparr>
      in (created \<and> configured, r1))"

text \<open>\<open>receive_rtp\<close>; the demuxer sees only the packets that pass.\<close>

definition receive_rtp :: "('d \<Rightarrow> bytes \<Rightarrow> int \<times> 'd) \<Rightarrow> rtp_receiver \<Rightarrow> 'd \<Rightarrow> bytes \<Rightarrow> gb28181_rtp_receive_result \<times> 'd" where
  "receive_rtp demux r d data =
     (if length data < 12 then (Ignored, d)
      else case rtp_packet_deserialize data of
        None \<Rightarrow> (Ignored, d)
      | Some packet \<Rightarrow>
          if ucast (rtp_pt (pkt_rtp packet)) \<noteq> rr_payload_type r \<or> rtp_ssrc (pkt_rtp packet) \<noteq> rr_expected_ssrc r \<or>
             pkt_payload packet = [] then (Ignored, d)
          else case demux d data of (result, d') \<Rightarrow> (if result < 0 then Fatal else Accepted, d'))"

definition set_expected_ssrc :: "u32 \<Rightarrow> rtp_receiver \<Rightarrow> rtp_receiver" where
  "set_expected_ssrc ssrc r = r\<lparr>rr_expected_ssrc := ssrc\<rparr>"

definition on_stream :: "int \<Rightarrow> ps_topology \<Rightarrow> ps_topology" where
  "on_stream codecid t =
     (case codec_from_ps codecid of
        None \<Rightarrow> if mpeg_stream_type_audio codecid then t\<lparr>pt_unsupported_audio := True\<rparr> else t\<lparr>pt_invalid := True\<rparr>
      | Some codec \<Rightarrow>
          if is_video codec then
            (if pt_video t \<noteq> None then t\<lparr>pt_invalid := True\<rparr> else t\<lparr>pt_video := Some codec\<rparr>)
          else if pt_audio t \<noteq> None then t\<lparr>pt_invalid := True\<rparr>
          else t\<lparr>pt_audio := Some codec\<rparr>)"

definition stream_callback :: "int \<Rightarrow> int \<Rightarrow> bool \<Rightarrow> rtp_receiver \<Rightarrow> rtp_receiver" where
  "stream_callback stream codecid finish r =
     (let r1 = (if stream \<ge> 0 then r\<lparr>rr_pending_topology := on_stream codecid (rr_pending_topology r)\<rparr> else r)
      in if finish then r1\<lparr>rr_announced_topology := Some (rr_pending_topology r1), rr_pending_topology := no_topology\<rparr>
         else r1)"

definition apply_topology :: "ps_topology \<Rightarrow> rtp_receiver \<Rightarrow> bool \<times> rtp_receiver" where
  "apply_topology topology r =
     (if pt_invalid topology \<or> pt_video topology = None then (False, r)
      else if rr_video_codec r \<noteq> None then
        (rr_video_codec r = pt_video topology \<and> rr_audio_codec r = pt_audio topology, r)
      else
        let r1 = r\<lparr>rr_video_codec := pt_video topology, rr_audio_codec := pt_audio topology,
                   rr_video_track := Some \<lparr>mt_id = video_track_id, mt_kind = Video, mt_codec = the (pt_video topology),
                     mt_clock_rate = 90000, mt_channel_count = 0, mt_codec_config = []\<rparr>\<rparr>
        in (True,
            if rr_audio_codec r1 = Some G711a \<or> rr_audio_codec r1 = Some G711u
            then r1\<lparr>rr_audio_track := Some \<lparr>mt_id = audio_track_id, mt_kind = Audio, mt_codec = the (rr_audio_codec r1),
                   mt_clock_rate = 8000, mt_channel_count = 1, mt_codec_config = []\<rparr>\<rparr>
            else r1))"

text \<open>The tracks the receiver's stream has.\<close>

definition stream_tracks :: "rtp_receiver \<Rightarrow> media_track list" where
  "stream_tracks r = (case rr_stream r of None \<Rightarrow> [] | Some (ref, s) \<Rightarrow> ms_tracks s)"

definition same_config :: "media_track \<Rightarrow> media_track \<Rightarrow> bool" where
  "same_config a b \<longleftrightarrow> mt_clock_rate a = mt_clock_rate b \<and> mt_channel_count a = mt_channel_count b \<and>
     mt_codec_config a = mt_codec_config b"

definition update_track_from_packet ::
  "(bytes \<Rightarrow> bytes) \<Rightarrow> (bytes \<Rightarrow> bytes) \<Rightarrow> avstream \<Rightarrow> rtp_receiver \<Rightarrow> int \<times> rtp_receiver" where
  "update_track_from_packet avcc hvcc stream r =
     (case media_track_from_avstream_config avcc hvcc stream video_track_id audio_track_id of
        None \<Rightarrow> (0, r)
      | Some track \<Rightarrow>
          if stream_tracks r \<noteq> [] then
            (case find (\<lambda>value. mt_id value = mt_id track) (stream_tracks r) of
               None \<Rightarrow> (-1, r)
             | Some fixed \<Rightarrow> if mt_codec fixed \<noteq> mt_codec track \<or> \<not> same_config fixed track then (-1, r) else (0, r))
          else
            let current = (if mt_kind track = Video then rr_video_track r else rr_audio_track r);
                r' = (if mt_kind track = Video then r\<lparr>rr_video_track := Some track\<rparr> else r\<lparr>rr_audio_track := Some track\<rparr>)
            in case current of
                 None \<Rightarrow> (1, r')
               | Some old \<Rightarrow> if mt_codec old \<noteq> mt_codec track \<or> same_config old track then (0, r) else (1, r'))"

text \<open>The tracks are complete: lines 293 to 305 of the packet handler, with the track list.\<close>

definition complete_tracks :: "rtp_receiver \<Rightarrow> media_track list option" where
  "complete_tracks r =
     (case rr_video_track r of
        None \<Rightarrow> None
      | Some video \<Rightarrow>
          if rr_video_codec r = None \<or>
             ((rr_video_codec r = Some H264 \<or> rr_video_codec r = Some H265) \<and> mt_codec_config video = []) \<or>
             (rr_audio_codec r \<noteq> None \<and> rr_audio_track r = None) \<or>
             (rr_audio_codec r = Some AAC \<and> mt_codec_config (the (rr_audio_track r)) = []) then None
          else Some (video # (case rr_audio_track r of None \<Rightarrow> [] | Some audio \<Rightarrow> [audio])))"

text \<open>The last part: conversion and publication of the packet.\<close>

definition publish_packet ::
  "(sink_id \<Rightarrow> bool) \<Rightarrow> int \<times> bytes option \<Rightarrow> codec_id \<Rightarrow> avpacket \<Rightarrow> rtp_receiver \<Rightarrow> int \<times> rtp_receiver" where
  "publish_packet live converted codec packet r =
     (case converted of (bytes, buffer) \<Rightarrow>
        if bytes \<le> 0 \<or> buffer = None then (if bytes < 0 then bytes else 0, r)
        else
          let frame = \<lparr>mf_track = (if is_video codec then video_track_id else audio_track_id),
                       mf_dts_ns = milliseconds_to_ns (ap_dts packet), mf_pts_ns = milliseconds_to_ns (ap_pts packet),
                       mf_key_frame = ap_key packet, mf_payload = Some (take (nat bytes) (the buffer)),
                       mf_length_prefixed = False\<rparr>
          in (0, r\<lparr>rr_stream := map_option (map_prod id (publish live frame)) (rr_stream r)\<rparr>))"

text \<open>The middle part: the stream is started once its tracks are complete.\<close>

definition start_stream :: "rtp_receiver \<Rightarrow> stream_registry \<Rightarrow> int option \<times> rtp_receiver \<times> stream_registry" where
  "start_stream r reg =
     (if stream_tracks r \<noteq> [] then (None, r, reg)
      else case complete_tracks r of
        None \<Rightarrow> (Some 0, r, reg)
      | Some tracks \<Rightarrow>
          case rr_stream r of
            None \<Rightarrow> (Some (-1), r, reg)
          | Some (ref, s) \<Rightarrow>
              (case set_tracks tracks s of
                 (False, s') \<Rightarrow> (Some (-1), r\<lparr>rr_stream := Some (ref, s')\<rparr>, reg)
               | (True, s') \<Rightarrow>
                   (case registry_add (Some (ref, s')) reg of
                      (False, reg') \<Rightarrow> (Some (-1), r\<lparr>rr_stream := Some (ref, s')\<rparr>, reg')
                    | (True, reg') \<Rightarrow>
                        (None, r\<lparr>rr_stream := Some (ref, s'), rr_video_track := None, rr_audio_track := None\<rparr>, reg'))))"

definition on_codec_packet ::
  "(bytes \<Rightarrow> bytes) \<Rightarrow> (bytes \<Rightarrow> bytes) \<Rightarrow> (sink_id \<Rightarrow> bool) \<Rightarrow> int \<times> bytes option \<Rightarrow> codec_id \<Rightarrow> avstream \<Rightarrow> avpacket \<Rightarrow>
   rtp_receiver \<Rightarrow> stream_registry \<Rightarrow> int \<times> rtp_receiver \<times> stream_registry" where
  "on_codec_packet avcc hvcc live converted codec stream packet r reg =
     (if (if is_video codec then rr_video_codec r \<noteq> Some codec else rr_audio_codec r \<noteq> Some codec) then (-1, r, reg)
      else
        let observed = (if is_video codec then rr_video_stream r else rr_audio_stream r)
        in if observed \<noteq> None \<and> observed \<noteq> Some (av_stream stream) then (-1, r, reg)
           else
             let r1 = (if is_video codec then r\<lparr>rr_video_stream := Some (av_stream stream)\<rparr>
                       else r\<lparr>rr_audio_stream := Some (av_stream stream)\<rparr>)
             in case update_track_from_packet avcc hvcc stream r1 of
                  (track_result, r2) \<Rightarrow>
                    if track_result < 0 then (-1, r2, reg)
                    else case start_stream r2 reg of
                      (Some result, r3, reg') \<Rightarrow> (result, r3, reg')
                    | (None, r3, reg') \<Rightarrow>
                        (case publish_packet live converted codec packet r3 of (result, r4) \<Rightarrow> (result, r4, reg')))"

definition on_demuxed_packet ::
  "(bytes \<Rightarrow> bytes) \<Rightarrow> (bytes \<Rightarrow> bytes) \<Rightarrow> (sink_id \<Rightarrow> bool) \<Rightarrow> int \<times> bytes option \<Rightarrow> avpacket option \<Rightarrow>
   rtp_receiver \<Rightarrow> stream_registry \<Rightarrow> int \<times> rtp_receiver \<times> stream_registry" where
  "on_demuxed_packet avcc hvcc live converted packet r reg =
     (case Option.bind packet (\<lambda>p. map_option (\<lambda>s. (p, s)) (ap_stream p)) of
        None \<Rightarrow> (-1, r, reg)
      | Some (p, stream) \<Rightarrow>
          let (ok, r1) = (case rr_announced_topology r of
                            None \<Rightarrow> (True, r)
                          | Some t \<Rightarrow> (case apply_topology t r of
                                        (True, r') \<Rightarrow> (True, r'\<lparr>rr_announced_topology := None\<rparr>)
                                      | (False, r') \<Rightarrow> (False, r')))
          in if \<not> ok then (-1, r1, reg)
             else case codec_from_avpacket (av_codecid stream) of
               None \<Rightarrow>
                 if rr_audio_codec r1 = None \<and> av_codecid stream \<ge> AVCODEC_AUDIO_PCM \<and> av_codecid stream < AVCODEC_TEXT_WEBVTT
                 then (0, r1, reg)
                 else if rr_video_codec r1 \<noteq> None then (-1, r1, reg) else (0, r1, reg)
             | Some codec \<Rightarrow>
                 if rr_video_codec r1 = None then (0, r1, reg)
                 else on_codec_packet avcc hvcc live converted codec stream p r1 reg)"

text \<open>\<open>shutdown\<close>, with the stream it ended.\<close>

definition receiver_shutdown ::
  "(sink_id \<Rightarrow> bool) \<Rightarrow> rtp_receiver \<Rightarrow> stream_registry \<Rightarrow> media_stream option \<times> rtp_receiver \<times> stream_registry" where
  "receiver_shutdown live r reg =
     (case rr_stream r of
        None \<Rightarrow> (None, r\<lparr>rr_demuxer := False\<rparr>, reg)
      | Some (ref, s) \<Rightarrow>
          (Some (stream_end live s), r\<lparr>rr_stream := None, rr_demuxer := False\<rparr>, registry_remove (ref, s) reg))"

text \<open>Every history of a started receiver while its stream is there.\<close>

inductive receiver_reachable :: "rtp_receiver \<Rightarrow> stream_registry \<Rightarrow> bool" where
  rcv_started: "receiver_startup ref w True True (new_rtp_receiver name pt ssrc) = (True, r) \<Longrightarrow> smap_ok reg \<Longrightarrow>
     receiver_reachable r reg"
| rcv_announced: "receiver_reachable r reg \<Longrightarrow> receiver_reachable (stream_callback stream codecid finish r) reg"
| rcv_packet: "receiver_reachable r reg \<Longrightarrow> on_demuxed_packet avcc hvcc live converted packet r reg = (result, r', reg') \<Longrightarrow>
     receiver_reachable r' reg'"
| rcv_ssrc: "receiver_reachable r reg \<Longrightarrow> receiver_reachable (set_expected_ssrc ssrc r) reg"

section \<open>Tracks and codecs\<close>

definition track_ok :: "media_track \<Rightarrow> bool" where
  "track_ok t \<longleftrightarrow> (if is_video (mt_codec t) then mt_id t = video_track_id \<and> mt_kind t = Video
                  else mt_id t = audio_track_id \<and> mt_kind t = Audio)"

definition config_ok :: "media_track \<Rightarrow> bool" where
  "config_ok t \<longleftrightarrow> mt_codec t \<in> {H264, H265, AAC} \<longrightarrow> mt_codec_config t \<noteq> []"

lemma is_video_simps [simp]:
  "is_video H264" "is_video H265" "\<not> is_video AAC" "\<not> is_video G711a" "\<not> is_video G711u" "\<not> is_video Opus"
  by (simp_all add: is_video_def)

lemma config_track:
  assumes "media_track_from_avstream_config avcc hvcc stream video_track_id audio_track_id = Some t"
  shows "codec_from_avpacket (av_codecid stream) = Some (mt_codec t)" "track_ok t" "config_ok t"
  using assms
  by (auto simp: media_track_from_avstream_config_def codec_from_avpacket_def track_ok_def config_ok_def codec_numbers
      Let_def split: if_splits)

definition topology_ok :: "ps_topology \<Rightarrow> bool" where
  "topology_ok t \<longleftrightarrow> (\<forall>c. pt_video t = Some c \<longrightarrow> is_video c) \<and> (\<forall>c. pt_audio t = Some c \<longrightarrow> \<not> is_video c)"

lemma no_topology_ok: "topology_ok no_topology"
  by (simp add: topology_ok_def no_topology_def)

lemma on_stream_ok: "topology_ok t \<Longrightarrow> topology_ok (on_stream codecid t)"
  by (auto simp: on_stream_def topology_ok_def split: option.splits)

text \<open>Before the stream starts: the tracks collected so far belong to the announced codecs.\<close>

definition collecting :: "rtp_receiver \<Rightarrow> bool" where
  "collecting r \<longleftrightarrow>
     (\<forall>t. rr_video_track r = Some t \<longrightarrow> rr_video_codec r = Some (mt_codec t) \<and> track_ok t) \<and>
     (\<forall>t. rr_audio_track r = Some t \<longrightarrow> rr_audio_codec r = Some (mt_codec t) \<and> track_ok t)"

text \<open>After: one video track and, when audio was announced, one audio track, both configured.\<close>

definition started :: "rtp_receiver \<Rightarrow> media_track list \<Rightarrow> bool" where
  "started r ts \<longleftrightarrow>
     (\<exists>v. rr_video_codec r = Some (mt_codec v) \<and> track_ok v \<and> config_ok v \<and>
        (case rr_audio_codec r of
           None \<Rightarrow> ts = [v]
         | Some c \<Rightarrow> \<exists>a. ts = [v, a] \<and> mt_codec a = c \<and> track_ok a \<and> config_ok a))"

definition receiver_inv :: "rtp_receiver \<Rightarrow> bool" where
  "receiver_inv r \<longleftrightarrow>
     (\<exists>ref s. rr_stream r = Some (ref, s) \<and> stream_reachable s) \<and>
     topology_ok (rr_pending_topology r) \<and> (\<forall>t. rr_announced_topology r = Some t \<longrightarrow> topology_ok t) \<and>
     (\<forall>c. rr_video_codec r = Some c \<longrightarrow> is_video c) \<and>
     (\<forall>c. rr_audio_codec r = Some c \<longrightarrow> \<not> is_video c \<and> rr_video_codec r \<noteq> None) \<and>
     (if stream_tracks r = [] then collecting r else started r (stream_tracks r))"

lemma receiver_inv_simps [simp]:
  "receiver_inv (r\<lparr>rr_video_stream := vs\<rparr>) = receiver_inv r"
  "receiver_inv (r\<lparr>rr_audio_stream := as\<rparr>) = receiver_inv r"
  "receiver_inv (r\<lparr>rr_expected_ssrc := ssrc\<rparr>) = receiver_inv r"
  by (simp_all add: receiver_inv_def stream_tracks_def collecting_def started_def cong: if_cong)

lemma receiver_inv_start:
  assumes "receiver_startup ref w True True (new_rtp_receiver name pt ssrc) = (True, r)"
  shows "receiver_inv r"
  using assms
  by (auto simp: receiver_startup_def new_rtp_receiver_def receiver_inv_def stream_tracks_def new_media_stream_def
      topology_ok_def no_topology_def collecting_def Let_def intro: str_new [of name w, unfolded new_media_stream_def])

lemma receiver_inv_callback: "receiver_inv r \<Longrightarrow> receiver_inv (stream_callback stream codecid finish r)"
  by (auto simp: receiver_inv_def stream_callback_def Let_def on_stream_ok no_topology_ok
      stream_tracks_def collecting_def started_def split: option.splits)

lemma receiver_inv_topology:
  assumes "receiver_inv r" "topology_ok t" "apply_topology t r = (ok, r')"
  shows "receiver_inv r'" "stream_tracks r' = stream_tracks r" "rr_stream r' = rr_stream r"
    "stream_tracks r \<noteq> [] \<Longrightarrow> rr_video_codec r' = rr_video_codec r \<and> rr_audio_codec r' = rr_audio_codec r"
proof -
  show "rr_stream r' = rr_stream r" "stream_tracks r' = stream_tracks r"
    using assms(3) by (auto simp: apply_topology_def stream_tracks_def Let_def split: if_splits)
  show "receiver_inv r'"
  proof (cases "rr_video_codec r' = rr_video_codec r")
    case True
    then have "r' = r" using assms(3) by (auto simp: apply_topology_def Let_def split: if_splits)
    with assms(1) show ?thesis by simp
  next
    case False
    then have "rr_video_codec r = None" using assms(3) by (auto simp: apply_topology_def Let_def split: if_splits)
    moreover from this have "stream_tracks r = []" using assms(1) by (auto simp: receiver_inv_def started_def split: if_splits)
    ultimately show ?thesis
      using assms
      by (auto simp: apply_topology_def receiver_inv_def topology_ok_def stream_tracks_def collecting_def track_ok_def
          Let_def split: if_splits)
  qed
  show "stream_tracks r \<noteq> [] \<Longrightarrow> rr_video_codec r' = rr_video_codec r \<and> rr_audio_codec r' = rr_audio_codec r"
    using assms(1,3) by (auto simp: apply_topology_def receiver_inv_def started_def Let_def split: if_splits)
qed

lemma receiver_inv_update:
  assumes "receiver_inv r" "update_track_from_packet avcc hvcc stream r = (res, r')"
    and "codec_from_avpacket (av_codecid stream) = Some codec"
    and "if is_video codec then rr_video_codec r = Some codec else rr_audio_codec r = Some codec"
  shows "receiver_inv r'" "rr_stream r' = rr_stream r" "rr_video_codec r' = rr_video_codec r"
    "rr_audio_codec r' = rr_audio_codec r"
proof -
  show "rr_stream r' = rr_stream r" "rr_video_codec r' = rr_video_codec r" "rr_audio_codec r' = rr_audio_codec r"
    using assms(2) by (auto simp: update_track_from_packet_def Let_def split: option.splits if_splits)
  show "receiver_inv r'"
  proof (cases "r' = r")
    case False
    with assms(2) obtain t where t: "media_track_from_avstream_config avcc hvcc stream video_track_id audio_track_id = Some t"
      "stream_tracks r = []"
      "r' = (if mt_kind t = Video then r\<lparr>rr_video_track := Some t\<rparr> else r\<lparr>rr_audio_track := Some t\<rparr>)"
      by (auto simp: update_track_from_packet_def Let_def split: option.splits if_splits)
    from config_track [OF t(1)] assms(3) have c: "mt_codec t = codec" "track_ok t" by simp_all
    show ?thesis
    proof (cases "is_video codec")
      case True
      with c t(3) have "r' = r\<lparr>rr_video_track := Some t\<rparr>" by (simp add: track_ok_def)
      with True c t(2) assms(1,4) show ?thesis by (simp add: receiver_inv_def stream_tracks_def collecting_def)
    next
      case False
      with c t(3) have "r' = r\<lparr>rr_audio_track := Some t\<rparr>" by (simp add: track_ok_def)
      with False c t(2) assms(1,4) show ?thesis by (simp add: receiver_inv_def stream_tracks_def collecting_def)
    qed
  qed (use assms(1) in simp)
qed

lemma complete_tracks_started:
  assumes "collecting r" "complete_tracks r = Some ts"
    and "\<forall>c. rr_video_codec r = Some c \<longrightarrow> is_video c" "\<forall>c. rr_audio_codec r = Some c \<longrightarrow> \<not> is_video c"
  shows "started r ts"
  using assms
  by (auto simp: complete_tracks_def collecting_def started_def config_ok_def is_video_def split: option.splits if_splits)

lemma receiver_inv_start_stream:
  assumes "receiver_inv r" "start_stream r reg = (res, r', reg')"
  shows "receiver_inv r'" "rr_video_codec r' = rr_video_codec r" "rr_audio_codec r' = rr_audio_codec r"
    "stream_tracks r \<noteq> [] \<Longrightarrow> stream_tracks r' = stream_tracks r" "res = None \<Longrightarrow> stream_tracks r' \<noteq> []"
proof -
  obtain ref s where s: "rr_stream r = Some (ref, s)" "stream_reachable s" using assms(1) by (auto simp: receiver_inv_def)
  consider "stream_tracks r \<noteq> []" "res = None" "r' = r"
    | "stream_tracks r = []" "res \<noteq> None" "r' = r"
    | tracks where "stream_tracks r = []" "complete_tracks r = Some tracks" "set_tracks tracks s = (True, s\<lparr>ms_tracks := tracks\<rparr>)"
        "r' = r\<lparr>rr_stream := Some (ref, s\<lparr>ms_tracks := tracks\<rparr>)\<rparr> \<and> res \<noteq> None \<or>
         r' = r\<lparr>rr_stream := Some (ref, s\<lparr>ms_tracks := tracks\<rparr>), rr_video_track := None, rr_audio_track := None\<rparr>"
    using assms(2) s
    by (auto simp: start_stream_def set_tracks_def split: if_splits option.splits prod.splits bool.splits)
  note cs = this
  show "rr_video_codec r' = rr_video_codec r" "rr_audio_codec r' = rr_audio_codec r"
    "stream_tracks r \<noteq> [] \<Longrightarrow> stream_tracks r' = stream_tracks r"
    by (rule cs; auto)+
  show "res = None \<Longrightarrow> stream_tracks r' \<noteq> []"
    by (rule cs) (auto simp: stream_tracks_def complete_tracks_def split: option.splits if_splits)
  show "receiver_inv r'"
  proof (rule cs)
    fix tracks
    assume t: "stream_tracks r = []" "complete_tracks r = Some tracks" "set_tracks tracks s = (True, s\<lparr>ms_tracks := tracks\<rparr>)"
      "r' = r\<lparr>rr_stream := Some (ref, s\<lparr>ms_tracks := tracks\<rparr>)\<rparr> \<and> res \<noteq> None \<or>
       r' = r\<lparr>rr_stream := Some (ref, s\<lparr>ms_tracks := tracks\<rparr>), rr_video_track := None, rr_audio_track := None\<rparr>"
    have st: "started r tracks"
      using assms(1) t(1,2) by (intro complete_tracks_started) (auto simp: receiver_inv_def)
    have ne: "tracks \<noteq> []" using t(2) by (auto simp: complete_tracks_def split: option.splits if_splits)
    have "stream_reachable (s\<lparr>ms_tracks := tracks\<rparr>)" using str_tracks [OF s(2), of tracks] t(3) by simp
    moreover have "stream_tracks r' = tracks" using t(4) by (auto simp: stream_tracks_def)
    moreover have "started r' tracks" using st t(4) by (auto simp: started_def)
    moreover have "rr_stream r' = Some (ref, s\<lparr>ms_tracks := tracks\<rparr>)" "rr_pending_topology r' = rr_pending_topology r"
      "rr_announced_topology r' = rr_announced_topology r" "rr_video_codec r' = rr_video_codec r"
      "rr_audio_codec r' = rr_audio_codec r" using t(4) by auto
    ultimately show ?thesis using ne assms(1) by (simp add: receiver_inv_def)
  qed (use assms(1) in auto)
qed

lemma publish_tracks: "ms_tracks (publish live frame s) = ms_tracks s"
  by (simp add: publish_def Let_def split: option.splits)

lemma receiver_inv_publish:
  assumes "receiver_inv r" "publish_packet live converted codec packet r = (res, r')"
  shows "receiver_inv r'" "stream_tracks r' = stream_tracks r" "rr_video_codec r' = rr_video_codec r"
    "rr_audio_codec r' = rr_audio_codec r"
proof -
  obtain ref s where s: "rr_stream r = Some (ref, s)" "stream_reachable s" using assms(1) by (auto simp: receiver_inv_def)
  consider "r' = r" | frame where "r' = r\<lparr>rr_stream := Some (ref, publish live frame s)\<rparr>"
    using assms(2) s(1) by (cases converted) (auto simp: publish_packet_def Let_def split: if_splits)
  note cs = this
  show tr: "stream_tracks r' = stream_tracks r"
    by (rule cs) (simp_all add: stream_tracks_def s(1) publish_tracks)
  show "rr_video_codec r' = rr_video_codec r" "rr_audio_codec r' = rr_audio_codec r" by (rule cs; simp)+
  show "receiver_inv r'"
  proof (rule cs)
    fix frame assume r': "r' = r\<lparr>rr_stream := Some (ref, publish live frame s)\<rparr>"
    have "stream_reachable (publish live frame s)" by (rule str_publish [OF s(2)])
    moreover have "collecting r' = collecting r" "started r' ts = started r ts" for ts
      by (simp_all add: r' collecting_def started_def)
    ultimately show ?thesis using assms(1) tr by (simp add: receiver_inv_def r')
  qed (use assms(1) in simp)
qed

lemma receiver_inv_codec_packet:
  assumes "receiver_inv r" "codec_from_avpacket (av_codecid stream) = Some codec"
    and "on_codec_packet avcc hvcc live converted codec stream packet r reg = (res, r', reg')"
  shows "receiver_inv r' \<and> (stream_tracks r \<noteq> [] \<longrightarrow> stream_tracks r' = stream_tracks r)"
proof -
  define r1 where "r1 = (if is_video codec then r\<lparr>rr_video_stream := Some (av_stream stream)\<rparr>
                       else r\<lparr>rr_audio_stream := Some (av_stream stream)\<rparr>)"
  have r1: "receiver_inv r1" "stream_tracks r1 = stream_tracks r" "rr_video_codec r1 = rr_video_codec r"
    "rr_audio_codec r1 = rr_audio_codec r"
    using assms(1) by (simp_all add: r1_def stream_tracks_def)
  obtain tr r2 where u: "update_track_from_packet avcc hvcc stream r1 = (tr, r2)" by (rule prod.exhaust)
  obtain sr r3 reg3 where st: "start_stream r2 reg = (sr, r3, reg3)" by (metis prod.exhaust)
  obtain pr r4 where pb: "publish_packet live converted codec packet r3 = (pr, r4)" by (rule prod.exhaust)
  consider "r' = r"
    | "if is_video codec then rr_video_codec r1 = Some codec else rr_audio_codec r1 = Some codec" "r' \<in> {r2, r3, r4}"
    using assms(3) unfolding on_codec_packet_def Let_def r1_def [symmetric] u prod.case st pb r1(3,4)
    by (auto split: if_splits option.splits)
  then show ?thesis
  proof cases
    case 2
    note i2 = receiver_inv_update [OF r1(1) u assms(2) 2(1)]
    note i3 = receiver_inv_start_stream [OF i2(1) st]
    note i4 = receiver_inv_publish [OF i3(1) pb]
    have "stream_tracks r2 = stream_tracks r" using i2(2) r1(2) by (simp add: stream_tracks_def)
    with i2 i3 i4 2(2) show ?thesis by auto
  qed (use assms(1) in simp)
qed

lemma receiver_inv_packet:
  assumes "receiver_inv r" "on_demuxed_packet avcc hvcc live converted packet r reg = (res, r', reg')"
  shows "receiver_inv r' \<and> (stream_tracks r \<noteq> [] \<longrightarrow> stream_tracks r' = stream_tracks r)"
proof -
  obtain ok r1 where a: "(case rr_announced_topology r of
                            None \<Rightarrow> (True, r)
                          | Some t \<Rightarrow> (case apply_topology t r of
                                        (True, r') \<Rightarrow> (True, r'\<lparr>rr_announced_topology := None\<rparr>)
                                      | (False, r') \<Rightarrow> (False, r'))) = (ok, r1)" by (rule prod.exhaust)
  have r1: "receiver_inv r1 \<and> stream_tracks r1 = stream_tracks r"
  proof -
    have drop: "receiver_inv q \<Longrightarrow> receiver_inv (q\<lparr>rr_announced_topology := None\<rparr>)"
      "stream_tracks (q\<lparr>rr_announced_topology := None\<rparr>) = stream_tracks q" for q
      by (simp_all add: receiver_inv_def stream_tracks_def collecting_def started_def split: if_splits)
    show ?thesis
    proof (cases "rr_announced_topology r")
      case (Some t)
      obtain k q where k: "apply_topology t r = (k, q)" by (rule prod.exhaust)
      have "topology_ok t" using assms(1) Some by (simp add: receiver_inv_def)
      note q = receiver_inv_topology [OF assms(1) this k]
      show ?thesis using a Some k q(1,2) drop by (cases k) auto
    qed (use a assms(1) in simp)
  qed
  consider "r' \<in> {r, r1}"
    | codec stream p where "codec_from_avpacket (av_codecid stream) = Some codec"
        "on_codec_packet avcc hvcc live converted codec stream p r1 reg = (res, r', reg')"
    using assms(2) unfolding on_demuxed_packet_def a
    by (auto simp: Let_def split: option.splits if_splits)
  then show ?thesis
  proof cases
    case (2 codec stream p)
    from receiver_inv_codec_packet [OF conjunct1 [OF r1] 2] r1 show ?thesis by simp
  qed (use r1 assms(1) in auto)
qed

lemma receiver_reachable_inv: "receiver_reachable r reg \<Longrightarrow> receiver_inv r"
proof (induction rule: receiver_reachable.induct)
  case (rcv_ssrc r reg ssrc)
  then show ?case by (simp add: set_expected_ssrc_def)
qed (simp_all add: receiver_inv_start receiver_inv_callback receiver_inv_packet)

text \<open>
  C17: Whatever a device announces and sends, a receiver's stream starts only when it is complete:
  one H.264 or H.265 video track with its parameter sets, and one audio track, configured when it
  is AAC, exactly when audio was announced; from then on no packet changes the tracks.
\<close>

theorem receiver_tracks_fixed:
  assumes "receiver_reachable r reg" "stream_tracks r \<noteq> []"
    and "on_demuxed_packet avcc hvcc live converted packet r reg = (result, r', reg')"
  shows "stream_tracks r' = stream_tracks r \<and>
    (\<exists>v. mt_id v = 1 \<and> mt_kind v = Video \<and> rr_video_codec r = Some (mt_codec v) \<and> mt_codec_config v \<noteq> [] \<and>
       (case rr_audio_codec r of
          None \<Rightarrow> stream_tracks r = [v]
        | Some c \<Rightarrow> \<exists>a. stream_tracks r = [v, a] \<and> mt_id a = 2 \<and> mt_kind a = Audio \<and> mt_codec a = c \<and>
            (c = AAC \<longrightarrow> mt_codec_config a \<noteq> [])))"
proof -
  have inv: "receiver_inv r" by (rule receiver_reachable_inv [OF assms(1)])
  then have st: "started r (stream_tracks r)" and vid: "\<forall>c. rr_video_codec r = Some c \<longrightarrow> is_video c"
    and aud: "\<forall>c. rr_audio_codec r = Some c \<longrightarrow> \<not> is_video c"
    using assms(2) by (simp_all add: receiver_inv_def)
  have "stream_tracks r' = stream_tracks r" using receiver_inv_packet [OF inv assms(3)] assms(2) by simp
  with st vid aud show ?thesis
    by (auto simp: started_def track_ok_def config_ok_def video_track_id_def audio_track_id_def is_video_def
        split: option.splits)
qed

definition demo_stream :: avstream where
  "demo_stream = \<lparr>av_stream = 0, av_codecid = 4, av_channels = 0, av_sample_rate = 0, av_extra = Some [1]\<rparr>"

definition demo_packet :: avpacket where
  "demo_packet = \<lparr>ap_stream = Some demo_stream, ap_pts = 40, ap_dts = 40, ap_key = True\<rparr>"

definition demo_receiver :: rtp_receiver where
  "demo_receiver = stream_callback 0 0x1b True
     (snd (receiver_startup 3 0 True True (new_rtp_receiver ''cam'' 96 7)))"

definition demo_handled :: "int \<times> rtp_receiver \<times> stream_registry" where
  "demo_handled = on_demuxed_packet (\<lambda>e. [0, 0, 0, 1]) id (\<lambda>_. True) (2, Some [5, 6]) (Some demo_packet) demo_receiver []"

lemma demo_receiver_reachable: "receiver_reachable demo_receiver []"
  unfolding demo_receiver_def
  by (rule rcv_announced, rule rcv_started [of 3 0 "''cam''" 96 7]) (simp_all add: receiver_startup_def)

lemma demo_handled_tracks:
  "fst demo_handled = 0" "stream_tracks (fst (snd demo_handled)) =
     [\<lparr>mt_id = 1, mt_kind = Video, mt_codec = H264, mt_clock_rate = 90000, mt_channel_count = 0, mt_codec_config = [0, 0, 0, 1]\<rparr>]"
  "snd (snd demo_handled) = [(''cam'', 3)]"
  by (simp_all add: demo_handled_def demo_receiver_def demo_packet_def demo_stream_def on_demuxed_packet_def
      receiver_startup_def new_rtp_receiver_def stream_callback_def on_stream_def codec_from_ps_def codec_numbers
      no_topology_def apply_topology_def codec_from_avpacket_def on_codec_packet_def update_track_from_packet_def
      media_track_from_avstream_config_def stream_tracks_def new_media_stream_def start_stream_def complete_tracks_def
      set_tracks_def registry_add_def smap_emplace_def publish_packet_def publish_tracks video_track_id_def
      same_config_def Let_def)

theorem receiver_tracks_fixed_witness:
  "stream_tracks (fst (snd (on_demuxed_packet id id (\<lambda>_. True) (2, Some [7, 8]) (Some demo_packet)
     (fst (snd demo_handled)) (snd (snd demo_handled))))) = stream_tracks (fst (snd demo_handled))"
proof -
  obtain res r' reg' where p: "on_demuxed_packet id id (\<lambda>_. True) (2, Some [7, 8]) (Some demo_packet)
     (fst (snd demo_handled)) (snd (snd demo_handled)) = (res, r', reg')" by (metis prod.exhaust)
  have reach: "receiver_reachable (fst (snd demo_handled)) (snd (snd demo_handled))"
    by (rule rcv_packet [OF demo_receiver_reachable, of "\<lambda>e. [0, 0, 0, 1]" id "\<lambda>_. True" "(2, Some [5, 6])" "Some demo_packet"
          "fst demo_handled"]) (simp add: demo_handled_def)
  have "stream_tracks (fst (snd demo_handled)) \<noteq> []" by (simp add: demo_handled_tracks)
  from receiver_tracks_fixed [OF reach this p] show ?thesis unfolding p fst_conv snd_conv by blast
qed

text \<open>
  Only RTP packets of the expected source and payload type with a payload reach the demuxer:
  a datagram that is too short, malformed or from another source leaves it untouched.
\<close>

lemma receive_rtp_filters:
  "receive_rtp demux r d data \<noteq> (Ignored, d) \<Longrightarrow>
     (\<exists>packet. rtp_packet_deserialize data = Some packet \<and> rtp_ssrc (pkt_rtp packet) = rr_expected_ssrc r \<and>
        ucast (rtp_pt (pkt_rtp packet)) = rr_payload_type r \<and> pkt_payload packet \<noteq> []) \<and>
     receive_rtp demux r d data = (if fst (demux d data) < 0 then Fatal else Accepted, snd (demux d data))"
  by (auto simp: receive_rtp_def split: option.splits if_splits prod.splits)

end
