(* ===== verification/Worker_Context.thy ===== *)
theory Worker_Context
  imports Prelude
begin

text \<open>
  \<open>media/net/worker_context.h\<close> and \<open>worker_context.cpp\<close>: one event loop with its coroutines and the
  callbacks sessions subscribe for its shutdown; and \<open>media/net/idle_timer.cpp\<close>.

  A callback is a node of a list with a pointer back to its subscription object, and the
  subscription object, wherever it is moved to, an iterator to its node. Nodes have identities,
  objects have addresses: \<open>wc_subs a\<close> is the node the object at address \<open>a\<close> points to, \<open>None\<close>
  when its \<open>worker_\<close> is null. The callbacks the sessions subscribe either post their work or reset
  their own, already detached subscription, so a call is recorded in \<open>wc_called\<close> and changes
  nothing else. \<open>request_stop\<close> may come from any thread: it only sets the flag and posts the
  handler, which runs later on the worker, like the posted starts of coroutines.
\<close>

record callback_node =
  cn_id :: nat
  cn_subscription :: "nat option"

record task =
  tk_id :: nat
  tk_cancelled :: bool

record worker_context =
  wc_tasks :: "task list"
  wc_callbacks :: "callback_node list"
  wc_stop_requested :: bool
  wc_stop_posted :: bool
  wc_spawn_posted :: nat
  wc_work :: bool
  wc_subs :: "nat \<Rightarrow> nat option"
  wc_next :: nat
  wc_called :: "nat list"
  wc_unsubscribed :: "nat list"

definition new_worker_context :: worker_context where
  "new_worker_context =
     \<lparr>wc_tasks = [], wc_callbacks = [], wc_stop_requested = False, wc_stop_posted = False, wc_spawn_posted = 0,
      wc_work = True, wc_subs = (\<lambda>_. None), wc_next = 0, wc_called = [], wc_unsubscribed = []\<rparr>"

definition set_subscription :: "nat \<Rightarrow> nat option \<Rightarrow> callback_node list \<Rightarrow> callback_node list" where
  "set_subscription n a nodes = map (\<lambda>c. if cn_id c = n then c\<lparr>cn_subscription := a\<rparr> else c) nodes"

definition unsubscribe_shutdown :: "nat \<Rightarrow> worker_context \<Rightarrow> worker_context" where
  "unsubscribe_shutdown n w =
     w\<lparr>wc_callbacks := filter (\<lambda>c. cn_id c \<noteq> n) (wc_callbacks w), wc_unsubscribed := wc_unsubscribed w @ [n]\<rparr>"

text \<open>\<open>subscribe_shutdown\<close> with the constructor of the subscription at address \<open>a\<close>.\<close>

definition subscribe_shutdown :: "nat \<Rightarrow> worker_context \<Rightarrow> worker_context" where
  "subscribe_shutdown a w =
     (if wc_stop_requested w then w\<lparr>wc_subs := (wc_subs w)(a := None)\<rparr>
      else w\<lparr>wc_callbacks := wc_callbacks w @ [\<lparr>cn_id = wc_next w, cn_subscription = Some a\<rparr>],
             wc_subs := (wc_subs w)(a \<mapsto> wc_next w), wc_next := wc_next w + 1\<rparr>)"

text \<open>\<open>reset\<close>, also run by the destructor.\<close>

definition subscription_reset :: "nat \<Rightarrow> worker_context \<Rightarrow> worker_context" where
  "subscription_reset a w =
     (case wc_subs w a of
        None \<Rightarrow> w
      | Some n \<Rightarrow>
          (let w1 = w\<lparr>wc_callbacks := set_subscription n None (wc_callbacks w)\<rparr>;
               w2 = unsubscribe_shutdown n w1
           in w2\<lparr>wc_subs := (wc_subs w2)(a := None)\<rparr>))"

text \<open>The move constructor of an object at \<open>b\<close> from the one at \<open>a\<close>, and the move assignment.\<close>

definition subscription_move :: "nat \<Rightarrow> nat \<Rightarrow> worker_context \<Rightarrow> worker_context" where
  "subscription_move b a w =
     (let n = wc_subs w a;
          w1 = w\<lparr>wc_subs := (wc_subs w)(a := None, b := n)\<rparr>
      in case n of None \<Rightarrow> w1 | Some n \<Rightarrow> w1\<lparr>wc_callbacks := set_subscription n (Some b) (wc_callbacks w1)\<rparr>)"

definition subscription_assign :: "nat \<Rightarrow> nat \<Rightarrow> worker_context \<Rightarrow> worker_context" where
  "subscription_assign b a w = (if b = a then w else subscription_move b a (subscription_reset b w))"

definition subscribed :: "nat \<Rightarrow> worker_context \<Rightarrow> bool" where
  "subscribed a w \<longleftrightarrow> wc_subs w a \<noteq> None"

definition request_stop :: "worker_context \<Rightarrow> worker_context" where
  "request_stop w = (if wc_stop_requested w then w else w\<lparr>wc_stop_requested := True, wc_stop_posted := True\<rparr>)"

fun run_callbacks :: "callback_node list \<Rightarrow> (nat \<Rightarrow> nat option) \<Rightarrow> nat list \<Rightarrow> (nat \<Rightarrow> nat option) \<times> nat list" where
  "run_callbacks [] subs called = (subs, called)"
| "run_callbacks (c # cs) subs called =
     (let subs' = (case cn_subscription c of None \<Rightarrow> subs | Some a \<Rightarrow> subs(a := None))
      in run_callbacks cs subs' (called @ [cn_id c]))"

text \<open>The posted handler of \<open>request_stop\<close>.\<close>

definition stop_handler :: "worker_context \<Rightarrow> worker_context" where
  "stop_handler w =
     (let tasks = map (\<lambda>t. t\<lparr>tk_cancelled := True\<rparr>) (wc_tasks w);
          (subs, called) = run_callbacks (wc_callbacks w) (wc_subs w) (wc_called w)
      in w\<lparr>wc_stop_posted := False, wc_tasks := tasks, wc_callbacks := [], wc_subs := subs, wc_called := called,
           wc_work := False\<rparr>)"

definition spawn :: "worker_context \<Rightarrow> worker_context" where
  "spawn w = (if wc_stop_requested w then w else w\<lparr>wc_spawn_posted := wc_spawn_posted w + 1\<rparr>)"

definition spawn_on_owner :: "worker_context \<Rightarrow> worker_context" where
  "spawn_on_owner w =
     (let w1 = w\<lparr>wc_spawn_posted := wc_spawn_posted w - 1\<rparr>
      in if wc_stop_requested w1 then w1
         else w1\<lparr>wc_tasks := wc_tasks w1 @ [\<lparr>tk_id = wc_next w1, tk_cancelled = False\<rparr>], wc_next := wc_next w1 + 1\<rparr>)"

definition task_done :: "nat \<Rightarrow> worker_context \<Rightarrow> worker_context" where
  "task_done t w = w\<lparr>wc_tasks := filter (\<lambda>k. tk_id k \<noteq> t) (wc_tasks w)\<rparr>"

text \<open>The destructor of the worker: the subscriptions that remain lose their worker.\<close>

definition destroy_worker :: "worker_context \<Rightarrow> worker_context" where
  "destroy_worker w =
     w\<lparr>wc_subs := fold (\<lambda>c subs. case cn_subscription c of None \<Rightarrow> subs | Some a \<Rightarrow> subs(a := None)) (wc_callbacks w) (wc_subs w),
       wc_callbacks := []\<rparr>"

inductive worker_reachable :: "worker_context \<Rightarrow> bool" where
  wrk_new: "worker_reachable new_worker_context"
| wrk_subscribe: "worker_reachable w \<Longrightarrow> wc_subs w a = None \<Longrightarrow> worker_reachable (subscribe_shutdown a w)"
| wrk_reset: "worker_reachable w \<Longrightarrow> worker_reachable (subscription_reset a w)"
| wrk_move: "worker_reachable w \<Longrightarrow> wc_subs w b = None \<Longrightarrow> b \<noteq> a \<Longrightarrow> worker_reachable (subscription_move b a w)"
| wrk_assign: "worker_reachable w \<Longrightarrow> worker_reachable (subscription_assign b a w)"
| wrk_request: "worker_reachable w \<Longrightarrow> worker_reachable (request_stop w)"
| wrk_handler: "worker_reachable w \<Longrightarrow> wc_stop_posted w \<Longrightarrow> worker_reachable (stop_handler w)"
| wrk_spawn: "worker_reachable w \<Longrightarrow> worker_reachable (spawn w)"
| wrk_spawned: "worker_reachable w \<Longrightarrow> 0 < wc_spawn_posted w \<Longrightarrow> worker_reachable (spawn_on_owner w)"
| wrk_task_done: "worker_reachable w \<Longrightarrow> worker_reachable (task_done t w)"

section \<open>Back pointers and the exact account of callbacks\<close>

text \<open>The object at \<open>a\<close> points to node \<open>n\<close> exactly when \<open>n\<close> is in the list and points back.\<close>

definition linked :: "worker_context \<Rightarrow> bool" where
  "linked w \<longleftrightarrow> distinct (map cn_id (wc_callbacks w)) \<and>
     (\<forall>a n. wc_subs w a = Some n \<longleftrightarrow> (\<exists>c \<in> set (wc_callbacks w). cn_id c = n \<and> cn_subscription c = Some a)) \<and>
     (\<forall>c \<in> set (wc_callbacks w). cn_subscription c \<noteq> None)"

definition accounted :: "worker_context \<Rightarrow> bool" where
  "accounted w \<longleftrightarrow> distinct (map cn_id (wc_callbacks w) @ wc_called w @ wc_unsubscribed w) \<and>
     (\<forall>n \<in> set (map cn_id (wc_callbacks w) @ wc_called w @ wc_unsubscribed w). n < wc_next w)"

definition stopping_ok :: "worker_context \<Rightarrow> bool" where
  "stopping_ok w \<longleftrightarrow> (wc_stop_posted w \<longrightarrow> wc_stop_requested w) \<and>
     (wc_stop_requested w \<and> \<not> wc_stop_posted w \<longrightarrow>
        wc_callbacks w = [] \<and> list_all tk_cancelled (wc_tasks w) \<and> \<not> wc_work w) \<and>
     (\<not> wc_stop_requested w \<longrightarrow> wc_called w = [] \<and> wc_work w)"

lemma run_callbacks_called: "snd (run_callbacks cs subs called) = called @ map cn_id cs"
  by (induction cs arbitrary: subs called) (simp_all add: Let_def)

lemma run_callbacks_subs:
  "fst (run_callbacks cs subs called) a =
     (if Some a \<in> cn_subscription ` set cs then None else subs a)"
  by (induction cs arbitrary: subs called) (auto simp: Let_def split: option.splits)

lemma set_subscription_id [simp]: "map cn_id (set_subscription n a cs) = map cn_id cs"
  by (simp add: set_subscription_def comp_def)

lemma filter_set_subscription:
  "filter (\<lambda>c. cn_id c \<noteq> n) (set_subscription n a cs) = filter (\<lambda>c. cn_id c \<noteq> n) cs"
  by (induction cs) (simp_all add: set_subscription_def)

lemma subscription_reset_eq:
  "subscription_reset a w =
     (case wc_subs w a of
        None \<Rightarrow> w
      | Some n \<Rightarrow> w\<lparr>wc_callbacks := filter (\<lambda>c. cn_id c \<noteq> n) (wc_callbacks w),
          wc_unsubscribed := wc_unsubscribed w @ [n], wc_subs := (wc_subs w)(a := None)\<rparr>)"
  by (simp add: subscription_reset_def Let_def unsubscribe_shutdown_def filter_set_subscription split: option.splits)

lemma linked_iff:
  "linked w \<Longrightarrow> wc_subs w x = Some m \<longleftrightarrow> (\<exists>c \<in> set (wc_callbacks w). cn_id c = m \<and> cn_subscription c = Some x)"
  by (simp add: linked_def)

lemma linked_null: "linked w \<Longrightarrow> wc_subs w b = None \<Longrightarrow> c \<in> set (wc_callbacks w) \<Longrightarrow> cn_subscription c \<noteq> Some b"
  using linked_iff [of w b "cn_id c"] by auto

lemma linked_node:
  assumes "linked w" "wc_subs w a = Some n" "c \<in> set (wc_callbacks w)"
  shows "cn_id c = n \<longleftrightarrow> cn_subscription c = Some a"
proof -
  obtain d where d: "d \<in> set (wc_callbacks w)" "cn_id d = n" "cn_subscription d = Some a"
    using assms(1,2) by (auto simp: linked_def)
  have "cn_id c = n \<Longrightarrow> c = d"
    using assms(1,3) d by (auto simp: linked_def distinct_map inj_on_def)
  moreover have "cn_subscription c = Some a \<Longrightarrow> wc_subs w a = Some (cn_id c)"
    using assms(1,3) by (auto simp: linked_def)
  ultimately show ?thesis using d(3) assms(2) by auto
qed

lemma linked_reset:
  assumes "linked w"
  shows "linked (subscription_reset a w)"
proof (cases "wc_subs w a")
  case (Some n)
  note node = linked_node [OF assms Some]
  note l = linked_iff [OF assms]
  have "((wc_subs w)(a := None)) x = Some m \<longleftrightarrow>
    (\<exists>c \<in> set (filter (\<lambda>c. cn_id c \<noteq> n) (wc_callbacks w)). cn_id c = m \<and> cn_subscription c = Some x)" for x m
  proof (cases "x = a")
    case False
    then have "cn_id c \<noteq> n" if "c \<in> set (wc_callbacks w)" "cn_subscription c = Some x" for c
      using node [OF that(1)] that(2) by auto
    with False l [of x m] show ?thesis by auto
  qed (use node in auto)
  with assms show ?thesis by (auto simp: subscription_reset_eq Some linked_def distinct_map_filter)
qed (use assms in \<open>simp add: subscription_reset_eq\<close>)

lemma in_set_subscription:
  "c \<in> set (set_subscription n x cs) \<longleftrightarrow>
     (\<exists>d \<in> set cs. c = (if cn_id d = n then d\<lparr>cn_subscription := x\<rparr> else d))"
  by (simp only: set_subscription_def set_map image_iff)

lemma bex_set_subscription:
  "(\<exists>c \<in> set (set_subscription n x cs). cn_id c = m \<and> cn_subscription c = y) \<longleftrightarrow>
     (\<exists>d \<in> set cs. cn_id d = m \<and> (if cn_id d = n then x = y else cn_subscription d = y))"
  by (induction cs) (auto simp: set_subscription_def)

lemma linked_move:
  assumes "linked w" "wc_subs w b = None" "b \<noteq> a"
  shows "linked (subscription_move b a w)"
proof (cases "wc_subs w a")
  case None
  then have "(wc_subs w)(a := None, b := None) = wc_subs w" using assms(2) by (auto simp: fun_eq_iff)
  with assms(1) None show ?thesis by (simp add: subscription_move_def)
next
  case (Some n)
  note node = linked_node [OF assms(1) Some]
  note nb = linked_null [OF assms(1,2)] and l = linked_iff [OF assms(1)]
  obtain d where d: "d \<in> set (wc_callbacks w)" "cn_id d = n" using l [of a n] Some by auto
  have "((wc_subs w)(a := None, b := Some n)) x = Some m \<longleftrightarrow>
      (\<exists>c \<in> set (set_subscription n (Some b) (wc_callbacks w)). cn_id c = m \<and> cn_subscription c = Some x)" for x m
  proof -
    consider "x = b" | "x = a" "x \<noteq> b" | "x \<noteq> a" "x \<noteq> b" by blast
    then show ?thesis
    proof cases
      case 1
      then show ?thesis unfolding bex_set_subscription using d nb by auto
    next
      case 2
      then show ?thesis unfolding bex_set_subscription using node by auto
    next
      case 3
      then have "(\<exists>d \<in> set (wc_callbacks w). cn_id d = m \<and> (if cn_id d = n then Some b = Some x else cn_subscription d = Some x)) \<longleftrightarrow>
        (\<exists>d \<in> set (wc_callbacks w). cn_id d = m \<and> cn_subscription d = Some x)"
        by (intro bex_cong refl) (auto simp: node)
      with 3 l [of x m] show ?thesis unfolding bex_set_subscription by simp
    qed
  qed
  moreover have "subscription_move b a w = w\<lparr>wc_subs := (wc_subs w)(a := None, b := Some n),
      wc_callbacks := set_subscription n (Some b) (wc_callbacks w)\<rparr>"
    by (simp add: subscription_move_def Some Let_def)
  moreover have "\<forall>c \<in> set (set_subscription n (Some b) (wc_callbacks w)). cn_subscription c \<noteq> None"
    using assms(1) by (auto simp: in_set_subscription linked_def)
  moreover have "distinct (map cn_id (wc_callbacks w))" using assms(1) by (simp add: linked_def)
  ultimately show ?thesis unfolding linked_def by simp
qed

lemma linked_subscribe:
  assumes "linked w" "wc_subs w a = None" "\<forall>n \<in> set (map cn_id (wc_callbacks w)). n < wc_next w"
  shows "linked (subscribe_shutdown a w)"
proof -
  note linked_null [OF assms(1,2)]
  moreover have "wc_next w \<notin> cn_id ` set (wc_callbacks w)" using assms(3) by auto
  moreover have "(wc_subs w)(a := None) = wc_subs w" using assms(2) by (auto simp: fun_eq_iff)
  ultimately show ?thesis using assms(1) by (auto simp: subscribe_shutdown_def linked_def)
qed

lemma linked_handler: "linked w \<Longrightarrow> linked (stop_handler w)"
proof -
  assume l: "linked w"
  have "fst (run_callbacks (wc_callbacks w) (wc_subs w) (wc_called w)) a = None" for a
    using l by (cases "wc_subs w a") (force simp: run_callbacks_subs linked_def)+
  then show "linked (stop_handler w)" by (auto simp: stop_handler_def linked_def Let_def split: prod.splits)
qed

lemma accounted_reset: "linked w \<Longrightarrow> accounted w \<Longrightarrow> accounted (subscription_reset a w)"
proof (cases "wc_subs w a")
  case (Some n)
  assume "linked w" "accounted w"
  then have "n \<in> set (map cn_id (wc_callbacks w))" using Some by (auto simp: linked_def)
  with \<open>accounted w\<close> show ?thesis
    by (auto simp: subscription_reset_eq Some accounted_def distinct_map_filter)
qed (simp add: subscription_reset_eq)

lemma accounted_move: "accounted w \<Longrightarrow> accounted (subscription_move b a w)"
  by (simp add: subscription_move_def accounted_def Let_def image_set [symmetric] del: set_map image_set split: option.splits)

lemma accounted_handler: "accounted w \<Longrightarrow> accounted (stop_handler w)"
  by (auto simp: stop_handler_def accounted_def Let_def run_callbacks_called split_beta)

lemma accounted_subscribe: "accounted w \<Longrightarrow> accounted (subscribe_shutdown a w)"
proof -
  assume acc: "accounted w"
  define ids where "ids = map cn_id (wc_callbacks w) @ wc_called w @ wc_unsubscribed w"
  have old: "n \<in> set ids \<Longrightarrow> n < wc_next w" for n using acc by (auto simp: accounted_def ids_def)
  then have "wc_next w \<notin> set ids" "n \<in> set ids \<Longrightarrow> n < Suc (wc_next w)" for n using less_SucI by blast+
  with acc show ?thesis by (auto simp: subscribe_shutdown_def accounted_def ids_def)
qed

lemma worker_stopping_ops:
  assumes "stopping_ok w"
  shows "stopping_ok (subscribe_shutdown a w)" "stopping_ok (subscription_reset a w)"
    "stopping_ok (subscription_move b a w)" "stopping_ok (request_stop w)" "stopping_ok (spawn w)"
    "stopping_ok (spawn_on_owner w)" "stopping_ok (task_done t w)"
    "wc_stop_posted w \<Longrightarrow> stopping_ok (stop_handler w)"
  using assms
  by (auto simp: stopping_ok_def subscribe_shutdown_def subscription_reset_eq subscription_move_def request_stop_def
      spawn_def spawn_on_owner_def task_done_def stop_handler_def set_subscription_def Let_def list_all_iff
      split: option.splits prod.splits)

lemma linked_cong: "wc_callbacks w' = wc_callbacks w \<Longrightarrow> wc_subs w' = wc_subs w \<Longrightarrow> linked w' = linked w"
  by (simp add: linked_def)

lemma accounted_tasks:
  "wc_callbacks w' = wc_callbacks w \<Longrightarrow> wc_called w' = wc_called w \<Longrightarrow> wc_unsubscribed w' = wc_unsubscribed w \<Longrightarrow>
   wc_next w \<le> wc_next w' \<Longrightarrow> accounted w \<Longrightarrow> accounted w'"
  by (auto simp: accounted_def intro: less_le_trans)

lemma wc_tasks_only:
  "linked (request_stop w) = linked w" "linked (spawn w) = linked w" "linked (spawn_on_owner w) = linked w"
  "linked (task_done t w) = linked w" "accounted w \<Longrightarrow> accounted (request_stop w)" "accounted w \<Longrightarrow> accounted (spawn w)"
  "accounted w \<Longrightarrow> accounted (spawn_on_owner w)" "accounted w \<Longrightarrow> accounted (task_done t w)"
  by (rule linked_cong accounted_tasks [of _ w];
      simp add: request_stop_def spawn_def spawn_on_owner_def task_done_def Let_def)+

lemma worker_inv: "worker_reachable w \<Longrightarrow> linked w \<and> accounted w \<and> stopping_ok w"
proof (induction rule: worker_reachable.induct)
  case wrk_new
  then show ?case by (simp add: new_worker_context_def linked_def accounted_def stopping_ok_def)
next
  case (wrk_subscribe w a)
  then have "\<forall>n \<in> set (map cn_id (wc_callbacks w)). n < wc_next w" by (simp add: accounted_def)
  with wrk_subscribe show ?case by (simp add: linked_subscribe accounted_subscribe worker_stopping_ops)
next
  case (wrk_assign w b a)
  have "wc_subs (subscription_reset b w) b = None" by (simp add: subscription_reset_eq split: option.splits)
  with wrk_assign show ?case
    by (simp add: subscription_assign_def linked_reset linked_move accounted_move accounted_reset worker_stopping_ops)
qed (simp_all add: linked_reset linked_move linked_handler accounted_reset accounted_move accounted_handler
    wc_tasks_only worker_stopping_ops)


definition stopped_sample :: worker_context where
  "stopped_sample = stop_handler (request_stop (subscription_move 2 1 (subscribe_shutdown 1 (spawn_on_owner (spawn new_worker_context)))))"

lemma stopped_sample_reachable: "worker_reachable stopped_sample"
  unfolding stopped_sample_def
  by (rule wrk_handler, rule wrk_request, rule wrk_move, rule wrk_subscribe, rule wrk_spawned, rule wrk_spawn, rule wrk_new)
    (simp_all add: new_worker_context_def spawn_def spawn_on_owner_def subscribe_shutdown_def subscription_move_def
      request_stop_def Let_def)


end
