(* ===== verification/Idle_Timer.thy ===== *)
theory Idle_Timer
  imports Main
begin

text \<open>
  \<open>media/net/idle_timer.cpp\<close>: the watchdog of the media sessions. Times are nanoseconds of the
  steady clock. \<open>it_deadline\<close> is the armed wait, \<open>it_fired\<close> records when the idle handler ran.
\<close>

definition media_idle_timeout :: int where "media_idle_timeout = 20 * 1000000000"

record idle_timer =
  it_on_idle :: bool
  it_last_activity :: int
  it_deadline :: "int option"
  it_fired :: "int list"

definition new_idle_timer :: idle_timer where
  "new_idle_timer = \<lparr>it_on_idle = False, it_last_activity = 0, it_deadline = None, it_fired = []\<rparr>"

definition idle_touch :: "int \<Rightarrow> idle_timer \<Rightarrow> idle_timer" where
  "idle_touch now s = s\<lparr>it_last_activity := now\<rparr>"

definition idle_wait :: "idle_timer \<Rightarrow> idle_timer" where
  "idle_wait s = s\<lparr>it_deadline := Some (it_last_activity s + media_idle_timeout)\<rparr>"

definition idle_start :: "int \<Rightarrow> idle_timer \<Rightarrow> idle_timer" where
  "idle_start now s = idle_wait (idle_touch now (s\<lparr>it_on_idle := True\<rparr>))"

definition idle_stop :: "idle_timer \<Rightarrow> idle_timer" where
  "idle_stop s = s\<lparr>it_on_idle := False, it_deadline := None\<rparr>"

text \<open>The wait completes, with an error or not, while the owner lives or not.\<close>

definition idle_expired :: "int \<Rightarrow> bool \<Rightarrow> bool \<Rightarrow> idle_timer \<Rightarrow> idle_timer" where
  "idle_expired now error owner s =
     (let s1 = s\<lparr>it_deadline := None\<rparr>
      in if error \<or> \<not> owner \<or> \<not> it_on_idle s1 then s1
         else if now < it_last_activity s1 + media_idle_timeout then idle_wait s1
         else s1\<lparr>it_on_idle := False, it_fired := it_fired s1 @ [now]\<rparr>)"

text \<open>A started timer at a time of the clock.\<close>

inductive idle_run :: "int \<Rightarrow> idle_timer \<Rightarrow> bool" where
  idle_started: "idle_run now (idle_start now new_idle_timer)"
| idle_later: "idle_run now s \<Longrightarrow> now \<le> now' \<Longrightarrow> idle_run now' s"
| idle_active: "idle_run now s \<Longrightarrow> idle_run now (idle_touch now s)"
| idle_due: "idle_run now s \<Longrightarrow> it_deadline s = Some d \<Longrightarrow> d \<le> now \<Longrightarrow> idle_run now (idle_expired now False True s)"
| idle_stopped: "idle_run now s \<Longrightarrow> idle_run now (idle_stop s)"

text \<open>
  While the handler is set a wait is armed that ends at most 20 seconds after the last activity,
  so silence is noticed; and the handler runs at most once, never earlier than that.
\<close>

lemma idle_run_inv:
  "idle_run now s \<Longrightarrow>
     it_last_activity s \<le> now \<and>
     (it_on_idle s \<longrightarrow> it_fired s = [] \<and> (\<exists>d. it_deadline s = Some d \<and> d \<le> it_last_activity s + media_idle_timeout)) \<and>
     length (it_fired s) \<le> 1"
proof (induction rule: idle_run.induct)
  case (idle_due now s d)
  then show ?case by (auto simp: idle_expired_def idle_wait_def Let_def)
qed (auto simp: idle_start_def idle_touch_def idle_wait_def idle_stop_def new_idle_timer_def)

lemma idle_fires_late:
  assumes "idle_run now s" "it_fired (idle_expired now False True s) \<noteq> it_fired s"
  shows "it_last_activity s + media_idle_timeout \<le> now"
  using assms by (auto simp: idle_expired_def idle_wait_def Let_def split: if_splits)

end
