(* ===== verification/Rtp_Queue.thy ===== *)
theory Rtp_Queue
  imports Rtp_Packet
begin

text \<open>
  The jitter buffer \<open>third/ireader/librtp/source/rtp-queue.c\<close>: a growing ring of packets ordered
  by sequence number, a four-place side buffer for packets far outside the window, and the rules
  that hand packets out. A packet is the parsed header with the bytes stored behind it. The
  asserts of the file are compiled out (\<open>NDEBUG\<close> in \<open>cmake/ireader.cmake\<close>) and have no counterpart.

  Slots of the arrays that were never written are \<open>None\<close>. \<open>alloc\<close> is the answer of \<open>realloc\<close> for a
  capacity. \<open>rq_freed\<close> records the packets given to the \<open>free\<close> callback.
\<close>

type_synonym queued = "rtp_packet \<times> bytes"

abbreviation pseq :: "queued \<Rightarrow> u16" where "pseq p \<equiv> rtp_seq (pkt_rtp (fst p))"
abbreviation ptime :: "queued \<Rightarrow> u32" where "ptime p \<equiv> rtp_timestamp (pkt_rtp (fst p))"

definition MAX_PACKET :: nat where "MAX_PACKET = 3000"
definition RTP_MISORDER :: nat where "RTP_MISORDER = 300"
definition RTP_DROPOUT :: nat where "RTP_DROPOUT = 1000"
definition RTP_SEQUENTIAL :: nat where "RTP_SEQUENTIAL = 3"
definition RTP_SEQMOD :: nat where "RTP_SEQMOD = 65536"

record rtp_queue_stats =
  qs_total :: int
  qs_duplicate :: int
  qs_reorder :: int
  qs_late :: int
  qs_bad :: int
  qs_lost :: int

record rtp_queue =
  rq_items :: "queued option list"
  rq_capacity :: nat
  rq_size :: nat
  rq_pos :: nat
  rq_probation :: nat
  rq_cycles :: int
  rq_last_seq :: u16
  rq_first_seq :: u16
  rq_bad_count :: nat
  rq_bad_seq :: u16
  rq_bad_items :: "queued option list"
  rq_threshold :: int
  rq_frequency :: int
  rq_stats :: rtp_queue_stats
  rq_freed :: "queued list"

definition no_stats :: rtp_queue_stats where
  "no_stats = \<lparr>qs_total = 0, qs_duplicate = 0, qs_reorder = 0, qs_late = 0, qs_bad = 0, qs_lost = 0\<rparr>"

definition rtp_queue_reset_bad_items :: "rtp_queue \<Rightarrow> rtp_queue" where
  "rtp_queue_reset_bad_items q =
     q\<lparr>rq_freed := rq_freed q @ map the (take (rq_bad_count q) (rq_bad_items q)), rq_bad_seq := 0, rq_bad_count := 0\<rparr>"

text \<open>The live part of the ring, from the read position on.\<close>

definition ring :: "rtp_queue \<Rightarrow> queued list" where
  "ring q = map (\<lambda>i. the (rq_items q ! ((rq_pos q + i) mod rq_capacity q))) [0..<rq_size q]"

definition rtp_queue_reset :: "rtp_queue \<Rightarrow> rtp_queue" where
  "rtp_queue_reset q =
     (let q1 = rtp_queue_reset_bad_items q
      in q1\<lparr>rq_freed := rq_freed q1 @ ring q1, rq_pos := 0, rq_size := 0, rq_probation := RTP_SEQUENTIAL\<rparr>)"

definition rtp_queue_create :: "int \<Rightarrow> int \<Rightarrow> rtp_queue" where
  "rtp_queue_create threshold frequency =
     (rtp_queue_reset
        \<lparr>rq_items = [], rq_capacity = 0, rq_size = 0, rq_pos = 0, rq_probation = 0, rq_cycles = 0, rq_last_seq = 0,
         rq_first_seq = 0, rq_bad_count = 0, rq_bad_seq = 0, rq_bad_items = replicate (RTP_SEQUENTIAL + 1) None,
         rq_threshold = 0, rq_frequency = 0, rq_stats = no_stats, rq_freed = []\<rparr>)
     \<lparr>rq_probation := 1, rq_threshold := threshold, rq_frequency := frequency\<rparr>"

text \<open>The binary search; \<open>None\<close> is the answer -1 for a duplicate.\<close>

function rtp_queue_find_from :: "rtp_queue \<Rightarrow> u16 \<Rightarrow> nat \<Rightarrow> nat \<Rightarrow> nat option" where
  "rtp_queue_find_from q v l r =
     (if l < r then
        let i = (l + r) div 2;
            vi = rq_last_seq q - pseq (the (rq_items q ! (i mod rq_capacity q)))
        in if vi = v then None
           else if vi < v then rtp_queue_find_from q v l i
           else rtp_queue_find_from q v (i + 1) r
      else Some l)"
  by pat_completeness auto
termination
  by (relation "measure (\<lambda>(q, v, l, r). r - l)") auto

declare rtp_queue_find_from.simps [simp del]

definition rtp_queue_find :: "rtp_queue \<Rightarrow> u16 \<Rightarrow> nat option" where
  "rtp_queue_find q s = rtp_queue_find_from q (rq_last_seq q - s) (rq_pos q) (rq_pos q + rq_size q)"

text \<open>The loop that makes room, from the end of the ring down to \<open>position\<close>.\<close>

fun move_items :: "nat \<Rightarrow> nat \<Rightarrow> nat \<Rightarrow> 'a list \<Rightarrow> 'a list" where
  "move_items i position capacity items =
     (if i > position
      then move_items (i - 1) position capacity (items[i mod capacity := items ! ((i - 1) mod capacity)])
      else items)"

declare move_items.simps [simp del]

text \<open>Growing by 250 slots; a ring that wraps has its older end moved to the new end of the array.\<close>

definition grow_items :: "rtp_queue \<Rightarrow> rtp_queue" where
  "grow_items q =
     (let items = rq_items q @ replicate 250 None
      in if rq_pos q + rq_size q > rq_capacity q
         then q\<lparr>rq_items := take (rq_pos q + 250) items @ drop (rq_pos q) (rq_items q), rq_pos := rq_pos q + 250,
                rq_capacity := rq_capacity q + 250\<rparr>
         else q\<lparr>rq_items := items, rq_capacity := rq_capacity q + 250\<rparr>)"

definition E2BIG :: int where "E2BIG = 7"
definition ENOMEM :: int where "ENOMEM = 12"

definition rtp_queue_insert :: "(nat \<Rightarrow> bool) \<Rightarrow> nat \<Rightarrow> queued \<Rightarrow> rtp_queue \<Rightarrow> int \<times> rtp_queue" where
  "rtp_queue_insert alloc position pkt q =
     (if rq_size q \<ge> rq_capacity q \<and> rq_size q + 1 > MAX_PACKET then (- E2BIG, q)
      else if rq_size q \<ge> rq_capacity q \<and> \<not> alloc (rq_capacity q + 250) then (- ENOMEM, q)
      else
        let q1 = (if rq_size q \<ge> rq_capacity q then grow_items q else q);
            position1 = position + (rq_pos q1 - rq_pos q);
            items = move_items (rq_pos q1 + rq_size q1) position1 (rq_capacity q1) (rq_items q1)
        in (1, q1\<lparr>rq_items := items[position1 mod rq_capacity q1 := Some pkt], rq_size := rq_size q1 + 1\<rparr>))"

definition append_packet :: "(nat \<Rightarrow> bool) \<Rightarrow> queued \<Rightarrow> rtp_queue \<Rightarrow> int \<times> rtp_queue" where
  "append_packet alloc pkt q = rtp_queue_insert alloc (rq_pos q + rq_size q) pkt q"

text \<open>The four cases of \<open>rtp_queue_write\<close> after the probation.\<close>

definition write_bad :: "(nat \<Rightarrow> bool) \<Rightarrow> queued \<Rightarrow> rtp_queue \<Rightarrow> int \<times> rtp_queue" where
  "write_bad alloc pkt q =
     (if rq_bad_count q > 0 \<and> rq_bad_seq q = pseq pkt \<and> rq_bad_count q \<ge> RTP_SEQUENTIAL then
        let q1 = fold (\<lambda>p q. snd (append_packet alloc p q)) (map the (take (rq_bad_count q) (rq_bad_items q))) q
        in append_packet alloc pkt (q1\<lparr>rq_bad_count := 0, rq_last_seq := pseq pkt\<rparr>)
      else
        let q1 = (if rq_bad_count q > 0 \<and> rq_bad_seq q = pseq pkt then q
                  else rtp_queue_reset_bad_items (q\<lparr>rq_stats := (rq_stats q)\<lparr>qs_bad := qs_bad (rq_stats q) + 1\<rparr>\<rparr>))
        in (1, q1\<lparr>rq_bad_seq := of_nat ((unat (pseq pkt) + 1) mod (RTP_SEQMOD - 1)),
                  rq_bad_items := (rq_bad_items q1)[rq_bad_count q1 := Some pkt],
                  rq_bad_count := rq_bad_count q1 + 1\<rparr>))"

definition write_settled :: "(nat \<Rightarrow> bool) \<Rightarrow> queued \<Rightarrow> rtp_queue \<Rightarrow> int \<times> rtp_queue" where
  "write_settled alloc pkt q =
     (let delta = pseq pkt - rq_last_seq q
      in if 0 < delta \<and> unat delta < RTP_DROPOUT then
           let q1 = (if pseq pkt < rq_last_seq q then q\<lparr>rq_cycles := rq_cycles q + int RTP_SEQMOD\<rparr> else q);
               q2 = (rtp_queue_reset_bad_items q1)\<lparr>rq_last_seq := pseq pkt\<rparr>
           in append_packet alloc pkt q2
         else if sint delta \<le> 0 \<and> sint delta \<ge> sint (rq_first_seq q - rq_last_seq q) then
           (case rtp_queue_find q (pseq pkt) of
              None \<Rightarrow> (-1, q\<lparr>rq_stats := (rq_stats q)\<lparr>qs_duplicate := qs_duplicate (rq_stats q) + 1\<rparr>\<rparr>)
            | Some idx \<Rightarrow>
                rtp_queue_insert alloc idx pkt
                  (rtp_queue_reset_bad_items
                     (q\<lparr>rq_stats := (rq_stats q)\<lparr>qs_reorder := qs_reorder (rq_stats q) + 1\<rparr>\<rparr>)))
         else if unat (rq_first_seq q - pseq pkt) < RTP_MISORDER then
           (-1, q\<lparr>rq_stats := (rq_stats q)\<lparr>qs_late := qs_late (rq_stats q) + 1\<rparr>\<rparr>)
         else write_bad alloc pkt q)"

definition write_probation :: "(nat \<Rightarrow> bool) \<Rightarrow> queued \<Rightarrow> rtp_queue \<Rightarrow> int \<times> rtp_queue" where
  "write_probation alloc pkt q =
     (let q1 = (if rq_size q > 0 \<and> unat (pseq pkt) = unat (rq_last_seq q) + 1 then
                  let q' = q\<lparr>rq_probation := rq_probation q - 1\<rparr>
                  in if rq_probation q' = 0 then q'\<lparr>rq_first_seq := pseq (the (rq_items q' ! rq_pos q'))\<rparr> else q'
                else if rq_size q = 0 \<and> rq_probation q = 1 then
                  q\<lparr>rq_first_seq := pseq pkt, rq_probation := rq_probation q - 1\<rparr>
                else rtp_queue_reset q)
      in append_packet alloc pkt (q1\<lparr>rq_last_seq := pseq pkt\<rparr>))"

definition rtp_queue_write :: "(nat \<Rightarrow> bool) \<Rightarrow> queued \<Rightarrow> rtp_queue \<Rightarrow> int \<times> rtp_queue" where
  "rtp_queue_write alloc pkt q0 =
     (let q = q0\<lparr>rq_stats := (rq_stats q0)\<lparr>qs_total := qs_total (rq_stats q0) + 1\<rparr>\<rparr>
      in if rq_probation q \<noteq> 0 then write_probation alloc pkt q else write_settled alloc pkt q)"

text \<open>The age of the ring in milliseconds, as the 32-bit arithmetic of \<open>rtp_queue_read\<close> computes it.\<close>

definition queue_delay :: "rtp_queue \<Rightarrow> u32" where
  "queue_delay q =
     (let newest = the (rq_items q ! ((rq_pos q + rq_size q - 1) mod rq_capacity q));
          d = ptime newest - ptime (the (rq_items q ! rq_pos q));
          d = (if sint d < 0 then - d else d)
      in word_of_int (int (unat d) * 1000 div rq_frequency q))"

definition take_head :: "rtp_queue \<Rightarrow> rtp_queue" where
  "take_head q = q\<lparr>rq_size := rq_size q - 1, rq_pos := (rq_pos q + 1) mod rq_capacity q\<rparr>"

definition rtp_queue_read :: "rtp_queue \<Rightarrow> queued option \<times> rtp_queue" where
  "rtp_queue_read q =
     (if rq_size q < 1 \<or> rq_probation q \<noteq> 0 then (None, q)
      else
        let pkt = the (rq_items q ! rq_pos q)
        in if rq_first_seq q = pseq pkt then (Some pkt, take_head (q\<lparr>rq_first_seq := rq_first_seq q + 1\<rparr>))
           else if queue_delay q < word_of_int (rq_threshold q) \<and> rq_size q + 5 < min RTP_DROPOUT MAX_PACKET
           then (None, q)
           else (Some pkt, take_head
                   (q\<lparr>rq_stats := (rq_stats q)\<lparr>qs_lost := qs_lost (rq_stats q) + (int (unat (pseq pkt)) - int (unat (rq_first_seq q)))\<rparr>,
                      rq_first_seq := pseq pkt + 1\<rparr>)))"

section \<open>The ring\<close>

definition ring_ok :: "rtp_queue \<Rightarrow> bool" where
  "ring_ok q \<longleftrightarrow>
     length (rq_items q) = rq_capacity q \<and> rq_size q \<le> rq_capacity q \<and> rq_capacity q \<le> MAX_PACKET \<and>
     rq_capacity q mod 250 = 0 \<and> (if rq_capacity q = 0 then rq_pos q = 0 else rq_pos q < rq_capacity q) \<and>
     (\<forall>i < rq_size q. rq_items q ! ((rq_pos q + i) mod rq_capacity q) \<noteq> None)"

lemma mod_add_cancel_left_nat: "(p + a) mod c = (p + b) mod c \<longleftrightarrow> a mod c = (b mod c :: nat)"
proof -
  have "int ((p + a) mod c) = int ((p + b) mod c) \<longleftrightarrow> int (a mod c) = int (b mod c)"
    by (simp add: of_nat_mod mod_eq_dvd_iff)
  then show ?thesis by simp
qed

lemma mod_slot_inj: "a < c \<Longrightarrow> b < c \<Longrightarrow> (p + a) mod c = (p + b) mod c \<longleftrightarrow> a = (b :: nat)"
  by (simp add: mod_add_cancel_left_nat)

lemma length_ring [simp]: "length (ring q) = rq_size q"
  by (simp add: ring_def)

lemma nth_ring: "i < rq_size q \<Longrightarrow> ring q ! i = the (rq_items q ! ((rq_pos q + i) mod rq_capacity q))"
  by (simp add: ring_def)

lemma length_move_items [simp]: "length (move_items i p c xs) = length xs"
  by (induction i p c xs rule: move_items.induct) (subst move_items.simps, simp)

lemma move_items_nth:
  assumes "length items = c" "n < c" "k \<le> n" "j < c"
  shows "move_items (p + n) (p + k) c items ! ((p + j) mod c) =
    (if k < j \<and> j \<le> n then items ! ((p + (j - 1)) mod c) else items ! ((p + j) mod c))"
  using assms
proof (induction n arbitrary: items)
  case 0
  then show ?case by (subst move_items.simps) simp
next
  case (Suc n)
  show ?case
  proof (cases "k = Suc n")
    case True
    then show ?thesis by (subst move_items.simps) auto
  next
    case False
    define items' where "items' = items[(p + Suc n) mod c := items ! ((p + n) mod c)]"
    have step: "move_items (p + Suc n) (p + k) c items = move_items (p + n) (p + k) c items'"
      using False Suc.prems by (subst move_items.simps) (simp add: items'_def)
    have slot: "items' ! ((p + i) mod c) = (if i = Suc n then items ! ((p + n) mod c) else items ! ((p + i) mod c))"
      if "i < c" for i
      using that Suc.prems mod_slot_inj [of i c "Suc n" p] by (auto simp: items'_def nth_list_update)
    have "move_items (p + n) (p + k) c items' ! ((p + j) mod c) =
        (if k < j \<and> j \<le> n then items' ! ((p + (j - 1)) mod c) else items' ! ((p + j) mod c))"
      using Suc.prems False by (intro Suc.IH) (simp_all add: items'_def)
    with slot [of j] slot [of "j - 1"] Suc.prems False show ?thesis unfolding step by auto
  qed
qed

lemma moved_tail_nth:
  assumes "p < length items"
  shows "i < p \<Longrightarrow> (take (p + 250) (items @ replicate 250 None) @ drop p items) ! i = items ! i"
    "p \<le> i \<Longrightarrow> i < length items \<Longrightarrow> (take (p + 250) (items @ replicate 250 None) @ drop p items) ! (i + 250) = items ! i"
proof -
  have len: "length (take (p + 250) (items @ replicate 250 None)) = p + 250" using assms by simp
  show "(take (p + 250) (items @ replicate 250 None) @ drop p items) ! i = items ! i" if "i < p"
    using that assms by (simp add: nth_append_left [OF less_le_trans [of i "p + 250"]] len nth_append)
  show "(take (p + 250) (items @ replicate 250 None) @ drop p items) ! (i + 250) = items ! i"
    if "p \<le> i" "i < length items"
    using that assms nth_append_right [of "take (p + 250) (items @ replicate 250 None)" "i + 250" "drop p items"]
    unfolding len by simp
qed

lemma ring_grow:
  assumes "ring_ok q" "rq_size q = rq_capacity q"
  shows "ring (grow_items q) = ring q" "rq_size (grow_items q) = rq_size q"
    "rq_capacity (grow_items q) = rq_capacity q + 250" "length (rq_items (grow_items q)) = rq_capacity q + 250"
    "rq_pos (grow_items q) < rq_capacity q + 250"
    "\<And>i. i < rq_size q \<Longrightarrow> rq_items (grow_items q) ! ((rq_pos (grow_items q) + i) mod (rq_capacity q + 250)) =
       rq_items q ! ((rq_pos q + i) mod rq_capacity q)"
proof -
  show sc: "rq_size (grow_items q) = rq_size q" "rq_capacity (grow_items q) = rq_capacity q + 250"
    by (simp_all add: grow_items_def Let_def)
  show "length (rq_items (grow_items q)) = rq_capacity q + 250" "rq_pos (grow_items q) < rq_capacity q + 250"
    using assms by (auto simp: grow_items_def ring_ok_def Let_def split: if_splits)
  show slots: "rq_items (grow_items q) ! ((rq_pos (grow_items q) + i) mod (rq_capacity q + 250)) =
       rq_items q ! ((rq_pos q + i) mod rq_capacity q)" if "i < rq_size q" for i
  proof -
    have c: "rq_pos q < rq_capacity q" "length (rq_items q) = rq_capacity q" "i < rq_capacity q"
      using that assms by (auto simp: ring_ok_def split: if_splits)
    show ?thesis
    proof (cases "rq_pos q = 0")
      case True
      with c assms(2) show ?thesis by (simp add: grow_items_def Let_def nth_append)
    next
      case wraps: False
      then have g: "rq_items (grow_items q) =
          take (rq_pos q + 250) (rq_items q @ replicate 250 None) @ drop (rq_pos q) (rq_items q)"
        "rq_pos (grow_items q) = rq_pos q + 250" using assms(2) by (simp_all add: grow_items_def Let_def)
      show ?thesis
      proof (cases "rq_pos q + i < rq_capacity q")
        case True
        then show ?thesis using moved_tail_nth(2) [of "rq_pos q" "rq_items q" "rq_pos q + i"] c
          unfolding g by (simp add: ac_simps)
      next
        case False
        have "(rq_pos q + 250 + i) mod (rq_capacity q + 250) = rq_pos q + i - rq_capacity q"
          "(rq_pos q + i) mod rq_capacity q = rq_pos q + i - rq_capacity q"
          using False c by (simp_all add: mod_if)
        then show ?thesis using moved_tail_nth(1) [of "rq_pos q" "rq_items q" "rq_pos q + i - rq_capacity q"] c False
          unfolding g by simp
      qed
    qed
  qed
  from slots show "ring (grow_items q) = ring q" unfolding ring_def sc by simp
qed

text \<open>Room for one more packet and the moved items: the ring has the packet at its place.\<close>

lemma insert_no_grow:
  assumes "length (rq_items q) = c" "rq_capacity q = c" "rq_size q < c" "rq_pos q < c" "k \<le> rq_size q"
    and live: "\<And>i. i < rq_size q \<Longrightarrow> rq_items q ! ((rq_pos q + i) mod c) \<noteq> None"
    and q': "q' = q\<lparr>rq_items := (move_items (rq_pos q + rq_size q) (rq_pos q + k) c (rq_items q))
      [(rq_pos q + k) mod c := Some pkt], rq_size := rq_size q + 1\<rparr>"
  shows "ring q' = take k (ring q) @ pkt # drop k (ring q)"
    "\<And>i. i < rq_size q' \<Longrightarrow> rq_items q' ! ((rq_pos q' + i) mod c) \<noteq> None"
proof -
  have slot: "rq_items q' ! ((rq_pos q + j) mod c) =
      (if j = k then Some pkt else if k < j then rq_items q ! ((rq_pos q + (j - 1)) mod c)
       else rq_items q ! ((rq_pos q + j) mod c))" if "j \<le> rq_size q" for j
    using that assms mod_slot_inj [of j c k "rq_pos q"] move_items_nth [of "rq_items q" c "rq_size q" k j "rq_pos q"]
    by (auto simp: nth_list_update)
  have f: "rq_pos q' = rq_pos q" "rq_size q' = rq_size q + 1" "rq_capacity q' = c" using assms(2) by (simp_all add: q')
  show "rq_items q' ! ((rq_pos q' + i) mod c) \<noteq> None" if "i < rq_size q'" for i
    using that slot [of i] live [of i] live [of "i - 1"] f assms(5) by auto
  show "ring q' = take k (ring q) @ pkt # drop k (ring q)"
  proof (rule nth_equalityI)
    show "length (ring q') = length (take k (ring q) @ pkt # drop k (ring q))" using assms(5) f by simp
    show "ring q' ! j = (take k (ring q) @ pkt # drop k (ring q)) ! j" if "j < length (ring q')" for j
    proof -
      have "ring q' ! j = the (rq_items q' ! ((rq_pos q + j) mod c))" using that f nth_ring [of j q'] by simp
      moreover have "j \<le> rq_size q" using that f by simp
      ultimately show ?thesis
      proof (cases "k < j")
        case True
        then obtain m where "j = Suc (k + m)" using less_iff_Suc_add by auto
        with \<open>ring q' ! j = _\<close> \<open>j \<le> rq_size q\<close> slot [of j] assms(2,5) show ?thesis
          by (simp add: nth_append min_def nth_ring)
      next
        case False
        with \<open>ring q' ! j = _\<close> \<open>j \<le> rq_size q\<close> slot [of j] assms(2,5) show ?thesis
          by (auto simp: nth_append min_def nth_ring)
      qed
    qed
  qed
qed

lemma rtp_queue_insert_list:
  assumes ok: "ring_ok q" and k: "k \<le> rq_size q" and run: "rtp_queue_insert alloc (rq_pos q + k) pkt q = (r, q')"
  shows "ring_ok q'" "r = 1 \<Longrightarrow> ring q' = take k (ring q) @ pkt # drop k (ring q)" "r \<noteq> 1 \<Longrightarrow> q' = q \<and> r < 0"
    "rq_size q < MAX_PACKET \<Longrightarrow> (\<And>c. alloc c) \<Longrightarrow> r = 1"
    "\<exists>items c s p. q' = q\<lparr>rq_items := items, rq_capacity := c, rq_size := s, rq_pos := p\<rparr>"
proof -
  define q1 where "q1 = (if rq_size q \<ge> rq_capacity q then grow_items q else q)"
  have full: "rq_size q \<ge> rq_capacity q \<Longrightarrow> rq_size q = rq_capacity q" using ok by (simp add: ring_ok_def)
  have off: "rq_pos q + k + (rq_pos q1 - rq_pos q) = rq_pos q1 + k"
    by (auto simp: q1_def grow_items_def Let_def)
  show max: "rq_size q < MAX_PACKET \<Longrightarrow> (\<And>c. alloc c) \<Longrightarrow> r = 1"
    using run by (auto simp: rtp_queue_insert_def Let_def split: if_splits)
  show "\<exists>items c s p. q' = q\<lparr>rq_items := items, rq_capacity := c, rq_size := s, rq_pos := p\<rparr>"
    using run by (cases q, cases q') (auto simp: rtp_queue_insert_def grow_items_def Let_def split: if_splits)
  show "r \<noteq> 1 \<Longrightarrow> q' = q \<and> r < 0"
    using run by (auto simp: rtp_queue_insert_def E2BIG_def ENOMEM_def Let_def split: if_splits)
  have "ring_ok q' \<and> ring q' = take k (ring q) @ pkt # drop k (ring q)" if "r = 1"
  proof -
    have space: "rq_capacity q \<le> rq_size q \<Longrightarrow> rq_size q < MAX_PACKET"
      and q': "q' = q1\<lparr>rq_items := (move_items (rq_pos q1 + rq_size q1) (rq_pos q1 + k) (rq_capacity q1) (rq_items q1))
        [(rq_pos q1 + k) mod rq_capacity q1 := Some pkt], rq_size := rq_size q1 + 1\<rparr>"
      using run that unfolding rtp_queue_insert_def q1_def [symmetric] Let_def off
      by (auto simp: E2BIG_def ENOMEM_def split: if_splits)
    have same: "ring q1 = ring q" "rq_size q1 = rq_size q" using ring_grow [OF ok] full by (auto simp: q1_def)
    have shape: "length (rq_items q1) = rq_capacity q1" "rq_size q1 < rq_capacity q1" "rq_pos q1 < rq_capacity q1"
      using ring_grow [OF ok] full ok k by (auto simp: q1_def ring_ok_def split: if_splits)
    have live: "rq_items q1 ! ((rq_pos q1 + i) mod rq_capacity q1) \<noteq> None" if "i < rq_size q1" for i
      using that ring_grow [OF ok] full ok by (auto simp: q1_def ring_ok_def)
    have cap: "rq_capacity q1 \<le> MAX_PACKET" "rq_capacity q1 mod 250 = 0"
      using ok space full by (auto simp: q1_def ring_ok_def MAX_PACKET_def grow_items_def Let_def dvd_def)
    show ?thesis
      using insert_no_grow [OF shape(1) refl shape(2,3) _ live q'] k same shape cap
      by (auto simp: ring_ok_def q')
  qed
  then show "ring_ok q'" "r = 1 \<Longrightarrow> ring q' = take k (ring q) @ pkt # drop k (ring q)"
    using \<open>r \<noteq> 1 \<Longrightarrow> q' = q \<and> r < 0\<close> ok by blast+
qed

section \<open>The search\<close>

lemma find_from_range:
  "l \<le> r \<Longrightarrow> rtp_queue_find_from q v l r = Some x \<Longrightarrow> l \<le> x \<and> x \<le> r"
proof (induction q v l r rule: rtp_queue_find_from.induct)
  case (1 q v l r)
  from 1(4) show ?case
    by (subst (asm) rtp_queue_find_from.simps)
      (use 1(3) 1(1) [OF _ refl refl] 1(2) [OF _ refl refl] in \<open>fastforce simp: Let_def split: if_splits\<close>)
qed

definition slot_age :: "rtp_queue \<Rightarrow> nat \<Rightarrow> u16" where
  "slot_age q i = rq_last_seq q - pseq (the (rq_items q ! (i mod rq_capacity q)))"

text \<open>On a range whose ages fall strictly, the search finds the value or the place where it belongs.\<close>

lemma find_from_sorted:
  assumes "\<And>i j. l \<le> i \<Longrightarrow> i < j \<Longrightarrow> j < r \<Longrightarrow> slot_age q j < slot_age q i"
  shows "case rtp_queue_find_from q v l r of
      None \<Rightarrow> \<exists>i. l \<le> i \<and> i < r \<and> slot_age q i = v
    | Some x \<Rightarrow> (\<forall>i. l \<le> i \<and> i < x \<longrightarrow> v < slot_age q i) \<and> (\<forall>i. x \<le> i \<and> i < r \<longrightarrow> slot_age q i < v)"
  using assms
proof (induction q v l r rule: rtp_queue_find_from.induct)
  case (1 q v l r)
  define i where "i = (l + r) div 2"
  note sorted = 1(3)
  consider "\<not> l < r" | "l < r" "slot_age q i = v" | "l < r" "slot_age q i < v" | "l < r" "v < slot_age q i" by force
  then show ?case
  proof cases
    case 1
    then show ?thesis by (subst rtp_queue_find_from.simps) auto
  next
    case 2
    then have "rtp_queue_find_from q v l r = None"
      by (subst rtp_queue_find_from.simps) (simp add: slot_age_def i_def Let_def)
    moreover have "l \<le> i" "i < r" using 2 by (simp_all add: i_def)
    ultimately show ?thesis using 2 by auto
  next
    case 3
    have i: "l \<le> i" "i < r" using 3 by (simp_all add: i_def)
    have eq: "rtp_queue_find_from q v l r = rtp_queue_find_from q v l i"
      using 3 by (subst rtp_queue_find_from.simps) (auto simp: slot_age_def i_def Let_def)
    have "case rtp_queue_find_from q v l i of
        None \<Rightarrow> \<exists>i'. l \<le> i' \<and> i' < i \<and> slot_age q i' = v
      | Some x \<Rightarrow> (\<forall>i'. l \<le> i' \<and> i' < x \<longrightarrow> v < slot_age q i') \<and> (\<forall>i'. x \<le> i' \<and> i' < i \<longrightarrow> slot_age q i' < v)"
      using 1(1) [of i "slot_age q i"] 3 sorted i by (auto simp: slot_age_def i_def)
    moreover have "slot_age q i' < v" if "i \<le> i'" "i' < r" for i'
      using that 3 sorted [of i i'] i by (cases "i' = i") auto
    ultimately show ?thesis unfolding eq using i by (fastforce split: option.splits simp: not_less)
  next
    case 4
    have i: "l \<le> i" "i < r" using 4 by (simp_all add: i_def)
    have eq: "rtp_queue_find_from q v l r = rtp_queue_find_from q v (i + 1) r"
      using 4 by (subst rtp_queue_find_from.simps) (auto simp: slot_age_def i_def Let_def)
    have found: "case rtp_queue_find_from q v (i + 1) r of
        None \<Rightarrow> \<exists>i'. i + 1 \<le> i' \<and> i' < r \<and> slot_age q i' = v
      | Some x \<Rightarrow> (\<forall>i'. i + 1 \<le> i' \<and> i' < x \<longrightarrow> v < slot_age q i') \<and> (\<forall>i'. x \<le> i' \<and> i' < r \<longrightarrow> slot_age q i' < v)"
      using 1(2) [of i "slot_age q i"] 4 sorted i by (auto simp: slot_age_def i_def)
    have older: "v < slot_age q i'" if "l \<le> i'" "i' \<le> i" for i'
      using that 4 sorted [of i' i] i by (cases "i' = i") auto
    show ?thesis
    proof (cases "rtp_queue_find_from q v (i + 1) r")
      case None
      with found obtain i' where "i + 1 \<le> i'" "i' < r" "slot_age q i' = v" by auto
      with i None eq show ?thesis by (auto intro: exI [of _ i'])
    next
      case (Some x)
      have "v < slot_age q i'" if "l \<le> i'" "i' < x" for i'
        using found older [of i'] that Some by (cases "i' \<le> i") auto
      with found Some eq show ?thesis by auto
    qed
  qed
qed

end
