(* ===== verification/Rtp_Queue_Props.thy ===== *)
theory Rtp_Queue_Props
  imports Rtp_Queue "HOL-Library.Multiset"
begin

text \<open>
  Properties of the jitter queue: its arrays are used within their bounds in every history, it
  refines a strictly sorted window of extended sequence numbers, and it hands packets out in
  order.
\<close>

section \<open>Every history of a queue\<close>

definition queue_ok :: "rtp_queue \<Rightarrow> bool" where
  "queue_ok q \<longleftrightarrow>
     ring_ok q \<and> rq_probation q \<le> 1 \<and> (rq_probation q = 1 \<longrightarrow> rq_size q = 0 \<and> rq_bad_count q = 0) \<and>
     length (rq_bad_items q) = RTP_SEQUENTIAL + 1 \<and> rq_bad_count q \<le> RTP_SEQUENTIAL \<and>
     (\<forall>i < rq_bad_count q. rq_bad_items q ! i \<noteq> None)"

inductive queue_reachable :: "rtp_queue \<Rightarrow> bool" where
  queue_created: "queue_reachable (rtp_queue_create threshold frequency)"
| queue_written: "queue_reachable q \<Longrightarrow> rtp_queue_write alloc pkt q = (r, q') \<Longrightarrow> queue_reachable q'"
| queue_read: "queue_reachable q \<Longrightarrow> rtp_queue_read q = (p, q') \<Longrightarrow> queue_reachable q'"

text \<open>The ring depends on its four fields only.\<close>

lemma ring_updates [simp]:
  "ring (q\<lparr>rq_stats := st\<rparr>) = ring q" "ring (q\<lparr>rq_last_seq := a\<rparr>) = ring q" "ring (q\<lparr>rq_first_seq := a\<rparr>) = ring q"
  "ring (q\<lparr>rq_cycles := c\<rparr>) = ring q" "ring (q\<lparr>rq_probation := n\<rparr>) = ring q" "ring (q\<lparr>rq_bad_count := n\<rparr>) = ring q"
  "ring (rtp_queue_reset_bad_items q) = ring q"
  "ring_ok (q\<lparr>rq_stats := st\<rparr>) = ring_ok q" "ring_ok (q\<lparr>rq_last_seq := a\<rparr>) = ring_ok q" "ring_ok (q\<lparr>rq_first_seq := a\<rparr>) = ring_ok q"
  "ring_ok (q\<lparr>rq_cycles := c\<rparr>) = ring_ok q" "ring_ok (q\<lparr>rq_probation := n\<rparr>) = ring_ok q"
  "ring_ok (q\<lparr>rq_bad_count := n\<rparr>) = ring_ok q" "ring_ok (rtp_queue_reset_bad_items q) = ring_ok q"
  by (simp_all add: rtp_queue_reset_bad_items_def ring_def ring_ok_def)

lemma reset_bad_fields [simp]:
  "rq_last_seq (rtp_queue_reset_bad_items q) = rq_last_seq q" "rq_first_seq (rtp_queue_reset_bad_items q) = rq_first_seq q"
  "rq_size (rtp_queue_reset_bad_items q) = rq_size q" "rq_pos (rtp_queue_reset_bad_items q) = rq_pos q"
  "rq_capacity (rtp_queue_reset_bad_items q) = rq_capacity q" "rq_items (rtp_queue_reset_bad_items q) = rq_items q"
  "rq_probation (rtp_queue_reset_bad_items q) = rq_probation q" "rq_bad_count (rtp_queue_reset_bad_items q) = 0"
  "rq_bad_items (rtp_queue_reset_bad_items q) = rq_bad_items q"
  by (simp_all add: rtp_queue_reset_bad_items_def)

text \<open>Insertion changes the ring only.\<close>

lemma insert_other_fields:
  assumes "rtp_queue_insert alloc position pkt q = (r, q')"
  shows "rq_last_seq q' = rq_last_seq q" "rq_first_seq q' = rq_first_seq q" "rq_probation q' = rq_probation q"
    "rq_bad_count q' = rq_bad_count q" "rq_bad_items q' = rq_bad_items q" "rq_bad_seq q' = rq_bad_seq q"
    "rq_frequency q' = rq_frequency q" "rq_threshold q' = rq_threshold q"
  using assms by (auto simp: rtp_queue_insert_def grow_items_def Let_def split: if_splits)

lemma append_packet_ok:
  assumes "ring_ok q" "append_packet alloc pkt q = (r, q')"
  shows "ring_ok q'" "r = 1 \<Longrightarrow> ring q' = ring q @ [pkt]" "r \<noteq> 1 \<Longrightarrow> q' = q \<and> r < 0"
    "rq_size q < MAX_PACKET \<Longrightarrow> (\<And>c. alloc c) \<Longrightarrow> r = 1"
  using rtp_queue_insert_list [OF assms(1) order.refl assms(2) [unfolded append_packet_def]] by auto

lemma queue_ok_insert:
  assumes "queue_ok q" "rq_probation q = 0" "k \<le> rq_size q" "rtp_queue_insert alloc (rq_pos q + k) pkt q = (r, q')"
  shows "queue_ok q'"
  using assms(1,2) rtp_queue_insert_list(1) [OF _ assms(3,4)] insert_other_fields [OF assms(4)]
  by (simp add: queue_ok_def)

lemma queue_ok_append:
  assumes "queue_ok q" "rq_probation q = 0" "append_packet alloc pkt q = (r, q')"
  shows "queue_ok q'" "rq_probation q' = 0"
  using queue_ok_insert [OF assms(1,2) order.refl assms(3) [unfolded append_packet_def]]
    insert_other_fields(3) [OF assms(3) [unfolded append_packet_def]] assms(2) by simp_all

lemma queue_ok_append_all:
  "queue_ok q \<Longrightarrow> rq_probation q = 0 \<Longrightarrow>
     queue_ok (fold (\<lambda>p q. snd (append_packet alloc p q)) ps q) \<and>
     rq_probation (fold (\<lambda>p q. snd (append_packet alloc p q)) ps q) = 0"
proof (induction ps arbitrary: q)
  case (Cons p ps)
  obtain r q' where step: "append_packet alloc p q = (r, q')" by (rule prod.exhaust)
  from Cons.IH [OF queue_ok_append [OF Cons.prems step]] step show ?case by simp
qed simp

lemma queue_ok_reset_bad: "queue_ok q \<Longrightarrow> queue_ok (rtp_queue_reset_bad_items q)"
  by (simp add: queue_ok_def)

lemma queue_ok_updates [simp]:
  "queue_ok (q\<lparr>rq_stats := st\<rparr>) = queue_ok q" "queue_ok (q\<lparr>rq_last_seq := a\<rparr>) = queue_ok q"
  "queue_ok (q\<lparr>rq_first_seq := a\<rparr>) = queue_ok q" "queue_ok (q\<lparr>rq_cycles := c\<rparr>) = queue_ok q"
  by (simp_all add: queue_ok_def)

lemma queue_ok_bad:
  assumes "queue_ok q" "rq_probation q = 0" "write_bad alloc pkt q = (r, q')"
  shows "queue_ok q'"
proof (cases "rq_bad_count q > 0 \<and> rq_bad_seq q = pseq pkt \<and> rq_bad_count q \<ge> RTP_SEQUENTIAL")
  case True
  define q1 where "q1 = fold (\<lambda>p q. snd (append_packet alloc p q)) (map the (take (rq_bad_count q) (rq_bad_items q))) q"
  have "queue_ok q1" "rq_probation q1 = 0" using queue_ok_append_all [OF assms(1,2)] by (simp_all add: q1_def)
  then have ok: "queue_ok (q1\<lparr>rq_bad_count := 0, rq_last_seq := pseq pkt\<rparr>)" by (simp add: queue_ok_def ring_ok_def)
  have "append_packet alloc pkt (q1\<lparr>rq_bad_count := 0, rq_last_seq := pseq pkt\<rparr>) = (r, q')"
    using assms(3) True by (simp add: write_bad_def q1_def)
  then show ?thesis by (rule queue_ok_append(1) [OF ok, rotated]) (simp add: \<open>rq_probation q1 = 0\<close>)
next
  case False
  define q1 where "q1 = (if rq_bad_count q > 0 \<and> rq_bad_seq q = pseq pkt then q
    else rtp_queue_reset_bad_items (q\<lparr>rq_stats := (rq_stats q)\<lparr>qs_bad := qs_bad (rq_stats q) + 1\<rparr>\<rparr>))"
  have "queue_ok q1" "rq_probation q1 = 0" "rq_bad_count q1 < RTP_SEQUENTIAL"
    using False assms(1,2) by (auto simp: q1_def queue_ok_reset_bad RTP_SEQUENTIAL_def)
  moreover have "q' = q1\<lparr>rq_bad_seq := of_nat ((unat (pseq pkt) + 1) mod (RTP_SEQMOD - 1)),
      rq_bad_items := (rq_bad_items q1)[rq_bad_count q1 := Some pkt], rq_bad_count := rq_bad_count q1 + 1\<rparr>"
    using assms(3) False unfolding write_bad_def q1_def [symmetric] Let_def by (simp only: if_False prod.inject)
  ultimately show ?thesis by (auto simp: queue_ok_def ring_ok_def nth_list_update less_Suc_eq)
qed

lemma queue_ok_settled:
  assumes ok: "queue_ok q" "rq_probation q = 0" and run: "write_settled alloc pkt q = (r, q')"
  shows "queue_ok q'"
proof -
  define delta where "delta = pseq pkt - rq_last_seq q"
  consider (ahead) "0 < delta" "unat delta < RTP_DROPOUT"
    | (inside) "\<not> (0 < delta \<and> unat delta < RTP_DROPOUT)" "sint delta \<le> 0 \<and> sint delta \<ge> sint (rq_first_seq q - rq_last_seq q)"
    | (outside) "\<not> (0 < delta \<and> unat delta < RTP_DROPOUT)" "\<not> (sint delta \<le> 0 \<and> sint delta \<ge> sint (rq_first_seq q - rq_last_seq q))"
    by blast
  then show ?thesis
  proof cases
    case ahead
    define q2 where "q2 = (rtp_queue_reset_bad_items (if pseq pkt < rq_last_seq q
      then q\<lparr>rq_cycles := rq_cycles q + int RTP_SEQMOD\<rparr> else q))\<lparr>rq_last_seq := pseq pkt\<rparr>"
    have "append_packet alloc pkt q2 = (r, q')"
      using run ahead by (simp add: write_settled_def delta_def [symmetric] q2_def)
    moreover have "queue_ok q2" "rq_probation q2 = 0" using ok by (simp_all add: q2_def queue_ok_reset_bad)
    ultimately show ?thesis using queue_ok_append(1) by blast
  next
    case inside
    show ?thesis
    proof (cases "rtp_queue_find q (pseq pkt)")
      case None
      with run inside ok show ?thesis by (auto simp: write_settled_def delta_def [symmetric])
    next
      case (Some idx)
      then have "rq_pos q \<le> idx \<and> idx \<le> rq_pos q + rq_size q"
        unfolding rtp_queue_find_def by (intro find_from_range) simp_all
      then obtain k where k: "idx = rq_pos q + k" "k \<le> rq_size q" using le_Suc_ex by auto
      define q1 where "q1 = rtp_queue_reset_bad_items (q\<lparr>rq_stats := (rq_stats q)\<lparr>qs_reorder := qs_reorder (rq_stats q) + 1\<rparr>\<rparr>)"
      have "rtp_queue_insert alloc (rq_pos q1 + k) pkt q1 = (r, q')"
        using run inside Some by (simp add: write_settled_def delta_def [symmetric] q1_def k)
      moreover have "queue_ok q1" "rq_probation q1 = 0" "k \<le> rq_size q1" using ok k by (simp_all add: q1_def queue_ok_reset_bad)
      ultimately show ?thesis using queue_ok_insert by blast
    qed
  next
    case outside
    with run have "(r, q') = (-1, q\<lparr>rq_stats := (rq_stats q)\<lparr>qs_late := qs_late (rq_stats q) + 1\<rparr>\<rparr>) \<or> write_bad alloc pkt q = (r, q')"
      by (auto simp: write_settled_def delta_def [symmetric] split: if_splits)
    with ok queue_ok_bad [OF ok, of alloc pkt r q'] show ?thesis by auto
  qed
qed

lemma queue_ok_write:
  assumes "queue_ok q" "rtp_queue_write alloc pkt q = (r, q')"
  shows "queue_ok q'"
proof -
  define q0 where "q0 = q\<lparr>rq_stats := (rq_stats q)\<lparr>qs_total := qs_total (rq_stats q) + 1\<rparr>\<rparr>"
  have ok: "queue_ok q0" using assms(1) by (simp add: q0_def)
  show ?thesis
  proof (cases "rq_probation q0 = 0")
    case True
    with assms(2) have "write_settled alloc pkt q0 = (r, q')" by (simp add: rtp_queue_write_def q0_def Let_def)
    then show ?thesis by (rule queue_ok_settled [OF ok True])
  next
    case False
    with ok have one: "rq_probation q0 = 1" "rq_size q0 = 0" by (simp_all add: queue_ok_def)
    define q1 where "q1 = q0\<lparr>rq_first_seq := pseq pkt, rq_probation := 0, rq_last_seq := pseq pkt\<rparr>"
    have "append_packet alloc pkt q1 = (r, q')"
      using assms(2) one by (simp add: rtp_queue_write_def q0_def [symmetric] write_probation_def q1_def Let_def)
    moreover have "queue_ok q1" "rq_probation q1 = 0" using ok one by (simp_all add: q1_def queue_ok_def ring_ok_def)
    ultimately show ?thesis using queue_ok_append(1) by blast
  qed
qed

lemma mod_Suc_slot: "(Suc p mod c + i) mod c = (p + Suc i) mod (c :: nat)"
  by (simp add: mod_add_left_eq)

lemma take_head_ring:
  assumes "ring_ok q" "0 < rq_size q"
  shows "ring_ok (take_head q)" "ring (take_head q) = tl (ring q)" "hd (ring q) = the (rq_items q ! rq_pos q)"
    "rq_items q ! rq_pos q \<noteq> None"
proof -
  have pos: "rq_pos q < rq_capacity q" using assms by (auto simp: ring_ok_def split: if_splits)
  have live: "rq_items q ! ((rq_pos q + i) mod rq_capacity q) \<noteq> None" if "i < rq_size q" for i
    using assms(1) that by (simp add: ring_ok_def)
  show "rq_items q ! rq_pos q \<noteq> None" using live [of 0] assms(2) pos by simp
  have "rq_items q ! ((rq_pos (take_head q) + i) mod rq_capacity q) \<noteq> None" if "i < rq_size q - 1" for i
    using live [of "Suc i"] that by (simp add: take_head_def mod_Suc_slot)
  with assms(1) pos show "ring_ok (take_head q)" by (auto simp: ring_ok_def take_head_def)
  show "hd (ring q) = the (rq_items q ! rq_pos q)" using assms(2) pos nth_ring [of 0 q] length_ring [of q]
    by (subst hd_conv_nth) (auto simp del: length_ring)
  show "ring (take_head q) = tl (ring q)"
  proof (rule nth_equalityI)
    fix i assume i: "i < length (ring (take_head q))"
    then have "i < rq_size q - 1" by (simp add: take_head_def)
    with nth_ring [of i "take_head q"] nth_ring [of "Suc i" q] show "ring (take_head q) ! i = tl (ring q) ! i"
      by (simp add: take_head_def mod_Suc_slot nth_tl)
  qed (simp add: take_head_def)
qed

text \<open>A read returns nothing and changes nothing, or returns the head of the ring.\<close>

lemma rtp_queue_read_cases:
  assumes "ring_ok q" "rtp_queue_read q = (p, q')"
  obtains (wait) "p = None" "q' = q"
    | (head) pkt st where "p = Some pkt" "0 < rq_size q" "rq_probation q = 0" "pkt = hd (ring q)"
      "q' = take_head (q\<lparr>rq_stats := st, rq_first_seq := pseq pkt + 1\<rparr>)"
proof (cases "rq_size q < 1 \<or> rq_probation q \<noteq> 0")
  case True
  with assms(2) have "p = None" "q' = q" by (simp_all add: rtp_queue_read_def)
  then show thesis by (rule wait)
next
  case False
  then have h: "hd (ring q) = the (rq_items q ! rq_pos q)" using take_head_ring(3) [OF assms(1)] by simp
  have "p = None \<and> q' = q \<or>
      p = Some (hd (ring q)) \<and> (\<exists>st. q' = take_head (q\<lparr>rq_stats := st, rq_first_seq := pseq (hd (ring q)) + 1\<rparr>))"
  proof (cases "rq_first_seq q = pseq (hd (ring q))")
    case True
    then have "p = Some (hd (ring q))" "q' = take_head (q\<lparr>rq_first_seq := pseq (hd (ring q)) + 1\<rparr>)"
      using False assms(2) unfolding rtp_queue_read_def h [symmetric] Let_def by simp_all
    then show ?thesis by (auto intro: exI [of _ "rq_stats q"])
  next
    case skip: False
    then show ?thesis
      using False assms(2) unfolding rtp_queue_read_def h [symmetric] Let_def by (auto split: if_splits)
  qed
  then show thesis
  proof (elim disjE conjE exE)
    fix st
    assume "p = Some (hd (ring q))" "q' = take_head (q\<lparr>rq_stats := st, rq_first_seq := pseq (hd (ring q)) + 1\<rparr>)"
    then show thesis using False by (intro head [of "hd (ring q)" st]) simp_all
  qed (rule wait)
qed

lemma queue_ok_read:
  assumes "queue_ok q" "rtp_queue_read q = (p, q')"
  shows "queue_ok q'"
proof -
  have "ring_ok q" using assms(1) by (simp add: queue_ok_def)
  then show ?thesis using assms(2)
  proof (cases rule: rtp_queue_read_cases)
    case (head pkt st)
    define q1 where "q1 = q\<lparr>rq_stats := st, rq_first_seq := pseq pkt + 1\<rparr>"
    have "queue_ok q1" "rq_probation q1 = 0" "0 < rq_size q1" using assms(1) head by (simp_all add: q1_def)
    then have "queue_ok (take_head q1)" using take_head_ring(1) [of q1] by (simp add: queue_ok_def) (simp add: take_head_def)
    with head q1_def show ?thesis by simp
  qed (use assms(1) in simp)
qed

lemma queue_reachable_ok: "queue_reachable q \<Longrightarrow> queue_ok q"
proof (induction rule: queue_reachable.induct)
  case (queue_created threshold frequency)
  then show ?case
    by (simp add: queue_ok_def ring_ok_def ring_def rtp_queue_create_def rtp_queue_reset_def rtp_queue_reset_bad_items_def
        RTP_SEQUENTIAL_def Let_def)
qed (auto intro: queue_ok_write queue_ok_read)

section \<open>A sorted window of extended sequence numbers\<close>

text \<open>
  Sequence numbers are read as integers that do not wrap. The specification is a window: the next
  number to hand out, the newest number, and the strictly sorted numbers waiting in between.
\<close>

type_synonym seq_window = "int \<times> int \<times> int list"

definition window_write :: "int \<Rightarrow> seq_window \<Rightarrow> int \<times> seq_window" where
  "window_write e w =
     (case w of (first, newest, es) \<Rightarrow>
        if first \<le> e \<and> e \<notin> set es then (1, (first, max newest e, insort e es)) else (-1, w))"

definition window_read :: "seq_window \<Rightarrow> int \<times> seq_window" where
  "window_read w = (case w of (first, newest, es) \<Rightarrow> (hd es, (hd es + 1, newest, tl es)))"

definition window_abs :: "rtp_queue \<Rightarrow> seq_window \<Rightarrow> bool" where
  "window_abs q w \<longleftrightarrow>
     (case w of (first, newest, es) \<Rightarrow>
        queue_ok q \<and> rq_probation q = 0 \<and> rq_first_seq q = word_of_int first \<and> rq_last_seq q = word_of_int newest \<and>
        map pseq (ring q) = map word_of_int es \<and> sorted_wrt (<) es \<and> (\<forall>e \<in> set es. first \<le> e \<and> e \<le> newest) \<and>
        first \<le> newest + 1 \<and> newest - first < 32000)"

text \<open>Packets the window takes: no older than 300 before, no newer than 1000 after it.\<close>

definition in_reach :: "int \<Rightarrow> seq_window \<Rightarrow> bool" where
  "in_reach e w \<longleftrightarrow>
     (case w of (first, newest, es) \<Rightarrow> first - int RTP_MISORDER < e \<and> e < newest + int RTP_DROPOUT \<and> max newest e - first < 32000)"

lemma word_diff_of_int: "word_of_int a - word_of_int b = (word_of_int (a - b) :: 'a :: len word)"
  by simp

lemma unat_small: "0 \<le> d \<Longrightarrow> d < 65536 \<Longrightarrow> unat (word_of_int d :: u16) = nat d"
  by (simp add: unat_eq_nat_uint uint_word_of_int)

lemma sint_small: "- 32768 \<le> d \<Longrightarrow> d < 32768 \<Longrightarrow> sint (word_of_int d :: u16) = d"
  by (simp add: signed_take_bit_int_eq_self sint_sbintrunc')

lemma u16_of_int_inj: "0 \<le> a \<Longrightarrow> a < 65536 \<Longrightarrow> 0 \<le> b \<Longrightarrow> b < 65536 \<Longrightarrow> (word_of_int a :: u16) = word_of_int b \<longleftrightarrow> a = b"
  using unat_small [of a] unat_small [of b] by (metis eq_nat_nat_iff)

lemma u16_of_int_less: "0 \<le> a \<Longrightarrow> a < 65536 \<Longrightarrow> 0 \<le> b \<Longrightarrow> b < 65536 \<Longrightarrow> (word_of_int a :: u16) < word_of_int b \<longleftrightarrow> a < b"
  by (auto simp: word_less_nat_alt unat_small)

lemma insort_between:
  "(\<forall>x \<in> set xs. x < e) \<Longrightarrow> (\<forall>y \<in> set ys. e < y) \<Longrightarrow> insort e (xs @ ys) = xs @ e # ys" for e :: int
proof (induction xs)
  case Nil
  then show ?case by (cases ys) auto
qed auto

lemma sorted_between:
  "sorted_wrt (<) (xs @ ys) \<Longrightarrow> (\<forall>x \<in> set xs. x < e) \<Longrightarrow> (\<forall>y \<in> set ys. e < y) \<Longrightarrow> sorted_wrt (<) (xs @ e # ys)" for e :: int
  by (simp add: sorted_wrt_append)

text \<open>Inserting a packet between the older and the newer ones of the ring.\<close>

lemma window_insert:
  assumes abs: "window_abs q (first, newest, es)" and e: "pseq pkt = word_of_int e" "first \<le> e" "max newest e - first < 32000"
    and k: "k \<le> length es" "\<forall>x \<in> set (take k es). x < e" "\<forall>y \<in> set (drop k es). e < y"
    and q1: "ring q1 = ring q" "queue_ok q1" "rq_probation q1 = 0" "rq_first_seq q1 = word_of_int first"
      "rq_last_seq q1 = word_of_int (max newest e)"
    and run: "rtp_queue_insert alloc (rq_pos q1 + k) pkt q1 = (r, q')" "\<forall>c. alloc c" "rq_size q1 < MAX_PACKET"
  shows "r = 1" "window_abs q' (first, max newest e, insort e es)" "mset (ring q') = add_mset pkt (mset (ring q))"
proof -
  have seqs: "map pseq (ring q) = map word_of_int es" using abs by (simp add: window_abs_def)
  have len: "length es = rq_size q1"
    using arg_cong [OF seqs, of length] arg_cong [OF q1(1), of length] by simp
  then have kq: "k \<le> rq_size q1" using k(1) by simp
  have ok: "ring_ok q1" using q1(2) by (simp add: queue_ok_def)
  show r: "r = 1" using rtp_queue_insert_list(4) [OF ok kq run(1) run(3)] run(2) by blast
  have ring: "ring q' = take k (ring q1) @ pkt # drop k (ring q1)" by (rule rtp_queue_insert_list(2) [OF ok kq run(1) r])
  have ins: "insort e es = take k es @ e # drop k es" using insort_between [OF k(2,3)] by simp
  have "map pseq (ring q') = map word_of_int (insort e es)"
    using arg_cong [OF seqs, of "take k"] arg_cong [OF seqs, of "drop k"] e(1) unfolding ring ins q1(1)
    by (simp add: take_map drop_map)
  moreover have "sorted_wrt (<) (insort e es)"
    using sorted_between [OF _ k(2,3)] abs unfolding ins by (simp add: window_abs_def)
  moreover have "queue_ok q'" by (rule queue_ok_insert [OF q1(2,3) kq run(1)])
  moreover have "mset (ring q') = mset (take k (ring q1) @ drop k (ring q1)) + {#pkt#}"
    unfolding ring mset_append by simp
  then show "mset (ring q') = add_mset pkt (mset (ring q))" unfolding q1(1) by simp
  ultimately show "window_abs q' (first, max newest e, insort e es)"
    using abs e insert_other_fields [OF run(1)] q1 by (auto simp: window_abs_def set_insort_key)
qed

text \<open>The search in a window: a duplicate, or the place between older and newer packets.\<close>

lemma window_find:
  assumes abs: "window_abs q (first, newest, es)" and e: "first \<le> e" "e \<le> newest"
  shows "case rtp_queue_find q (word_of_int e) of
      None \<Rightarrow> e \<in> set es
    | Some x \<Rightarrow> \<exists>k \<le> length es. x = rq_pos q + k \<and> (\<forall>y \<in> set (take k es). y < e) \<and> (\<forall>y \<in> set (drop k es). e < y)"
proof -
  have seqs: "map pseq (ring q) = map word_of_int es" and small: "newest - first < 32000" and srt: "sorted_wrt (<) es"
    and last: "rq_last_seq q = word_of_int newest" using abs by (simp_all add: window_abs_def)
  have rng: "first \<le> x \<and> x \<le> newest" if "x \<in> set es" for x using that abs by (simp add: window_abs_def)
  have len: "rq_size q = length es" using arg_cong [OF seqs, of length] by simp
  have age: "slot_age q (rq_pos q + i) = word_of_int (newest - es ! i)" if "i < length es" for i
    using that arg_cong [OF seqs, of "\<lambda>xs. xs ! i"] nth_ring [of i q] len last
    by (simp add: slot_age_def)
  have es: "0 \<le> newest - es ! i \<and> newest - es ! i < 65536" if "i < length es" for i
    using that rng [of "es ! i"] small by simp
  have falls: "slot_age q j < slot_age q i" if "rq_pos q \<le> i" "i < j" "j < rq_pos q + rq_size q" for i j
  proof -
    obtain a b where "i = rq_pos q + a" "j = rq_pos q + b" using \<open>rq_pos q \<le> i\<close> \<open>i < j\<close>
      by (metis le_Suc_ex less_imp_le_nat order_trans)
    then show ?thesis
      using that len age [of a] age [of b] es [of a] es [of b] sorted_wrt_nth_less [OF srt, of a b]
      by (simp add: u16_of_int_less del: of_int_diff)
  qed
  have v: "0 \<le> newest - e \<and> newest - e < 65536" using e small by simp
  have find: "rtp_queue_find q (word_of_int e) = rtp_queue_find_from q (word_of_int (newest - e)) (rq_pos q) (rq_pos q + rq_size q)"
    by (simp add: rtp_queue_find_def last)
  have found: "case rtp_queue_find q (word_of_int e) of
      None \<Rightarrow> \<exists>i. rq_pos q \<le> i \<and> i < rq_pos q + rq_size q \<and> slot_age q i = word_of_int (newest - e)
    | Some x \<Rightarrow> (\<forall>i. rq_pos q \<le> i \<and> i < x \<longrightarrow> word_of_int (newest - e) < slot_age q i) \<and>
        (\<forall>i. x \<le> i \<and> i < rq_pos q + rq_size q \<longrightarrow> slot_age q i < word_of_int (newest - e))"
    unfolding find by (rule find_from_sorted) (rule falls)
  show ?thesis
  proof (cases "rtp_queue_find q (word_of_int e)")
    case None
    with found obtain i where i: "rq_pos q \<le> i" "i < rq_pos q + rq_size q" "slot_age q i = word_of_int (newest - e)" by auto
    define a where "a = i - rq_pos q"
    have "a < length es" "slot_age q (rq_pos q + a) = word_of_int (newest - e)" using i len by (auto simp: a_def)
    then have "es ! a = e" using age [of a] es [of a] v by (simp add: u16_of_int_inj del: of_int_diff)
    with \<open>a < length es\<close> None show ?thesis by auto
  next
    case (Some x)
    then have "rq_pos q \<le> x \<and> x \<le> rq_pos q + rq_size q" unfolding find by (intro find_from_range) simp_all
    then obtain k where k: "x = rq_pos q + k" "k \<le> length es" using len le_Suc_ex by auto
    have "es ! a < e" if "a < k" for a
    proof -
      have "word_of_int (newest - e) < slot_age q (rq_pos q + a)" using found Some that k by simp
      then show ?thesis using that k age [of a] es [of a] v by (simp add: u16_of_int_less del: of_int_diff)
    qed
    moreover have "e < es ! a" if "k \<le> a" "a < length es" for a
    proof -
      have "slot_age q (rq_pos q + a) < word_of_int (newest - e)" using found Some that k len by simp
      then show ?thesis using that k age [of a] es [of a] v by (simp add: u16_of_int_less del: of_int_diff)
    qed
    ultimately have "\<forall>y \<in> set (take k es). y < e" "\<forall>y \<in> set (drop k es). e < y"
      using k by (auto simp: in_set_conv_nth)
    with Some k show ?thesis by auto
  qed
qed

lemma not_ahead:
  assumes "d \<le> 0" "- 64000 < d"
  shows "\<not> (0 < (word_of_int d :: u16) \<and> unat (word_of_int d :: u16) < RTP_DROPOUT)"
proof (cases "d = 0")
  case False
  have "unat (word_of_int (d + 65536) :: u16) = nat (d + 65536)" using False assms by (intro unat_small) simp_all
  moreover have "(word_of_int (d + 65536) :: u16) = word_of_int d" by (simp only: word_of_int_eq_iff) (simp add: take_bit_eq_mod)
  ultimately have "unat (word_of_int d :: u16) = nat (d + 65536)" by (simp only:)
  moreover have "1000 \<le> nat (d + 65536)" using assms by (simp add: le_nat_iff)
  ultimately show ?thesis by (simp add: RTP_DROPOUT_def)
qed simp

lemma window_abs_stats [simp]: "window_abs (q\<lparr>rq_stats := st\<rparr>) w = window_abs q w"
  by (simp add: window_abs_def)

lemma window_settled:
  assumes abs: "window_abs q (first, newest, es)" and e: "pseq pkt = word_of_int e" "in_reach e (first, newest, es)"
    and space: "\<forall>c. alloc c" "rq_size q < MAX_PACKET" and run: "write_settled alloc pkt q = (r, q')"
  shows "r = fst (window_write e (first, newest, es)) \<and> window_abs q' (snd (window_write e (first, newest, es))) \<and>
    mset (ring q') = (if r = 1 then add_mset pkt (mset (ring q)) else mset (ring q))"
proof -
  have ok: "queue_ok q" "rq_probation q = 0" and fields: "rq_first_seq q = word_of_int first" "rq_last_seq q = word_of_int newest"
    and w: "first \<le> newest + 1" "newest - first < 32000" using abs by (simp_all add: window_abs_def)
  have reach: "first - 300 < e" "e < newest + 1000" "max newest e - first < 32000"
    using e(2) by (simp_all add: in_reach_def RTP_MISORDER_def RTP_DROPOUT_def)
  have d: "pseq pkt - rq_last_seq q = word_of_int (e - newest)" "rq_first_seq q - rq_last_seq q = word_of_int (first - newest)"
    "rq_first_seq q - pseq pkt = word_of_int (first - e)" using e(1) fields by simp_all
  have sd: "sint (word_of_int (e - newest) :: u16) = e - newest" "sint (word_of_int (first - newest) :: u16) = first - newest"
    using reach w by (simp_all only: sint_small)
  have "map pseq (ring q) = map word_of_int es" using abs by (simp add: window_abs_def)
  from arg_cong [OF this, of length] have len: "rq_size q = length es" by simp
  consider (ahead) "newest < e" | (inside) "first \<le> e" "e \<le> newest" | (late) "e < first" "e \<le> newest" using w by linarith
  then show ?thesis
  proof cases
    case ahead
    define q2 where "q2 = (rtp_queue_reset_bad_items (if pseq pkt < rq_last_seq q
      then q\<lparr>rq_cycles := rq_cycles q + int RTP_SEQMOD\<rparr> else q))\<lparr>rq_last_seq := pseq pkt\<rparr>"
    have "unat (word_of_int (e - newest) :: u16) = nat (e - newest)" using ahead reach by (intro unat_small) simp_all
    then have "0 < (word_of_int (e - newest) :: u16) \<and> unat (word_of_int (e - newest) :: u16) < RTP_DROPOUT"
      using ahead reach by (simp add: word_less_nat_alt RTP_DROPOUT_def)
    then have "append_packet alloc pkt q2 = (r, q')" using run unfolding write_settled_def d Let_def q2_def by simp
    moreover have "rq_size q2 = length es" using len by (simp add: q2_def)
    ultimately have ins: "rtp_queue_insert alloc (rq_pos q2 + length es) pkt q2 = (r, q')" by (simp add: append_packet_def)
    have es: "\<forall>x \<in> set es. x < e" "e \<notin> set es" using abs ahead by (auto simp: window_abs_def)
    have q2: "ring q2 = ring q" "queue_ok q2" "rq_probation q2 = 0" "rq_first_seq q2 = word_of_int first"
      "rq_last_seq q2 = word_of_int (max newest e)" "rq_size q2 < MAX_PACKET"
      using ok fields e(1) ahead space by (simp_all add: q2_def queue_ok_reset_bad)
    have "first \<le> e" using ahead w by simp
    from window_insert [OF abs e(1) this reach(3) _ _ _ q2(1-5) ins space(1) q2(6)] es ahead \<open>first \<le> e\<close>
    show ?thesis by (simp add: window_write_def)
  next
    case inside
    have na: "\<not> (0 < (word_of_int (e - newest) :: u16) \<and> unat (word_of_int (e - newest) :: u16) < RTP_DROPOUT)"
      using inside w by (intro not_ahead) simp_all
    have inw: "e - newest \<le> 0 \<and> first - newest \<le> e - newest" using inside by simp
    have settled: "(case rtp_queue_find q (word_of_int e) of
        None \<Rightarrow> (-1, q\<lparr>rq_stats := (rq_stats q)\<lparr>qs_duplicate := qs_duplicate (rq_stats q) + 1\<rparr>\<rparr>)
      | Some idx \<Rightarrow> rtp_queue_insert alloc idx pkt (rtp_queue_reset_bad_items
          (q\<lparr>rq_stats := (rq_stats q)\<lparr>qs_reorder := qs_reorder (rq_stats q) + 1\<rparr>\<rparr>))) = (r, q')"
      using run unfolding write_settled_def Let_def d sd if_not_P [OF na] if_P [OF inw] unfolding e(1) .
    note find = window_find [OF abs inside]
    show ?thesis
    proof (cases "rtp_queue_find q (word_of_int e)")
      case None
      with settled find abs inside show ?thesis by (auto simp: window_write_def)
    next
      case (Some idx)
      with find obtain k where k: "k \<le> length es" "idx = rq_pos q + k" "\<forall>y \<in> set (take k es). y < e" "\<forall>y \<in> set (drop k es). e < y"
        by auto
      have new: "e \<notin> set es"
      proof
        assume "e \<in> set es"
        then have "e \<in> set (take k es) \<union> set (drop k es)" by (metis append_take_drop_id set_append)
        with k show False by auto
      qed
      define q1 where "q1 = rtp_queue_reset_bad_items (q\<lparr>rq_stats := (rq_stats q)\<lparr>qs_reorder := qs_reorder (rq_stats q) + 1\<rparr>\<rparr>)"
      have ins: "rtp_queue_insert alloc (rq_pos q1 + k) pkt q1 = (r, q')" using settled Some k by (simp add: q1_def)
      have q1: "ring q1 = ring q" "queue_ok q1" "rq_probation q1 = 0" "rq_first_seq q1 = word_of_int first"
        "rq_last_seq q1 = word_of_int (max newest e)" "rq_size q1 < MAX_PACKET"
        using ok fields inside space by (simp_all add: q1_def queue_ok_reset_bad)
      from window_insert [OF abs e(1) inside(1) reach(3) k(1,3,4) q1(1-5) ins space(1) q1(6)] new inside
      show ?thesis by (simp add: window_write_def)
    qed
  next
    case late
    have na: "\<not> (0 < (word_of_int (e - newest) :: u16) \<and> unat (word_of_int (e - newest) :: u16) < RTP_DROPOUT)"
      using late reach w by (intro not_ahead) simp_all
    have outw: "\<not> (e - newest \<le> 0 \<and> first - newest \<le> e - newest)" using late by simp
    have mis: "unat (word_of_int (first - e) :: u16) < RTP_MISORDER"
      using late reach unat_small [of "first - e"] by (simp add: RTP_MISORDER_def del: of_int_diff)
    have "(-1, q\<lparr>rq_stats := (rq_stats q)\<lparr>qs_late := qs_late (rq_stats q) + 1\<rparr>\<rparr>) = (r, q')"
      using run unfolding write_settled_def Let_def d sd if_not_P [OF na] if_not_P [OF outw] if_P [OF mis] .
    with abs late show ?thesis by (auto simp: window_write_def)
  qed
qed

lemma window_write_sim:
  assumes abs: "window_abs q w" and "rtp_queue_read q = (None, q)" "pseq pkt = word_of_int e" "in_reach e w" "\<forall>c. alloc c"
    and run: "rtp_queue_write alloc pkt q = (r, q')"
  shows "r = fst (window_write e w) \<and> window_abs q' (snd (window_write e w)) \<and>
    mset (ring q') = (if r = 1 then add_mset pkt (mset (ring q)) else mset (ring q))"
proof -
  obtain first newest es where w: "w = (first, newest, es)" by (metis prod.exhaust)
  define q0 where "q0 = q\<lparr>rq_stats := (rq_stats q)\<lparr>qs_total := qs_total (rq_stats q) + 1\<rparr>\<rparr>"
  have prob: "rq_probation q = 0" using abs by (simp add: w window_abs_def)
  then have "write_settled alloc pkt q0 = (r, q')" using run by (simp add: rtp_queue_write_def q0_def Let_def)
  moreover have "rq_size q0 < MAX_PACKET"
    using assms(2) prob by (auto simp: rtp_queue_read_def q0_def RTP_DROPOUT_def MAX_PACKET_def Let_def split: if_splits)
  moreover have "window_abs q0 (first, newest, es)" "ring q0 = ring q" using abs by (simp_all add: q0_def w)
  ultimately show ?thesis using window_settled [of q0 first newest es pkt e alloc r q'] assms(3,4,5) w by simp
qed

lemma window_read_sim:
  assumes abs: "window_abs q w" and run: "rtp_queue_read q = (Some pkt, q')"
  shows "pseq pkt = word_of_int (fst (window_read w))" "window_abs q' (snd (window_read w))"
    "mset (ring q) = add_mset pkt (mset (ring q'))" "fst w \<le> fst (window_read w)"
proof -
  obtain first newest es where w: "w = (first, newest, es)" by (metis prod.exhaust)
  have ok: "queue_ok q" and seqs: "map pseq (ring q) = map word_of_int es" using abs by (simp_all add: w window_abs_def)
  from ok have "ring_ok q" by (simp add: queue_ok_def)
  then obtain st where h: "0 < rq_size q" "pkt = hd (ring q)" "q' = take_head (q\<lparr>rq_stats := st, rq_first_seq := pseq pkt + 1\<rparr>)"
    using run by (cases rule: rtp_queue_read_cases) auto
  define q1 where "q1 = q\<lparr>rq_stats := st, rq_first_seq := pseq pkt + 1\<rparr>"
  have "ring_ok q1" "0 < rq_size q1" using \<open>ring_ok q\<close> h(1) by (simp_all add: q1_def)
  then have ring: "ring q' = tl (ring q)" using take_head_ring(2) [of q1] h(3) by (simp add: q1_def)
  have ne: "ring q \<noteq> []" using h(1) length_ring [of q] by (metis length_0_conv less_nat_zero_code)
  then obtain e es' where es: "es = e # es'" using seqs by (cases es) auto
  have rng: "first \<le> e" "e \<le> newest" "\<forall>x \<in> set es'. e < x \<and> x \<le> newest" "sorted_wrt (<) es'"
    using abs by (simp_all add: w window_abs_def es)
  show hd: "pseq pkt = word_of_int (fst (window_read w))"
    using seqs ne h(2) by (cases "ring q") (simp_all add: w window_read_def es)
  show "mset (ring q) = add_mset pkt (mset (ring q'))" using ne h(2) ring by (cases "ring q") simp_all
  show "fst w \<le> fst (window_read w)" using rng by (simp add: w window_read_def es)
  have "map pseq (ring q') = map word_of_int es'" using seqs ne ring by (cases "ring q") (simp_all add: es)
  moreover have "queue_ok q'" by (rule queue_ok_read [OF ok run])
  moreover have "rq_probation q' = 0" "rq_last_seq q' = rq_last_seq q" "rq_first_seq q' = pseq pkt + 1"
    using abs h(3) by (simp_all add: take_head_def w window_abs_def)
  ultimately show "window_abs q' (snd (window_read w))"
    using abs rng hd by (auto simp: w window_read_def es window_abs_def)
qed

lemma window_read_ready:
  assumes "window_abs q (first, newest, first # es)"
  shows "\<exists>q'. rtp_queue_read q = (Some (hd (ring q)), q')"
proof -
  have ok: "ring_ok q" "rq_probation q = 0" and seqs: "map pseq (ring q) = map word_of_int (first # es)"
    and f: "rq_first_seq q = word_of_int first" using assms by (simp_all add: window_abs_def queue_ok_def)
  from arg_cong [OF seqs, of length] have size: "0 < rq_size q" by simp
  have hd: "hd (ring q) = the (rq_items q ! rq_pos q)" by (rule take_head_ring(3) [OF ok(1) size])
  have "pseq (hd (ring q)) = word_of_int first" using seqs by (cases "ring q") simp_all
  then show ?thesis using size ok(2) f by (simp add: rtp_queue_read_def hd Let_def)
qed

lemma window_first:
  assumes "pseq pkt = word_of_int e" and run: "rtp_queue_write (\<lambda>_. True) pkt (rtp_queue_create threshold frequency) = (r, q')"
  shows "r = 1" "window_abs q' (e, e, [e])" "ring q' = [pkt]"
proof -
  define q where "q = rtp_queue_create threshold frequency"
  have new: "rq_probation q = 1" "rq_size q = 0" "ring q = []" and ok: "queue_ok q"
    using queue_reachable_ok [OF queue_created]
    by (simp_all add: q_def rtp_queue_create_def rtp_queue_reset_def ring_def Let_def)
  define q1 where "q1 = q\<lparr>rq_stats := (rq_stats q)\<lparr>qs_total := qs_total (rq_stats q) + 1\<rparr>,
    rq_first_seq := pseq pkt, rq_probation := 0, rq_last_seq := pseq pkt\<rparr>"
  have app: "append_packet (\<lambda>_. True) pkt q1 = (r, q')"
    using run new by (simp add: q_def [symmetric] rtp_queue_write_def write_probation_def q1_def Let_def)
  have ok1: "queue_ok q1" "rq_probation q1 = 0" "ring_ok q1" "ring q1 = []" "rq_size q1 = 0"
    using ok new by (simp_all add: q1_def queue_ok_def)
  note ins = append_packet_ok [OF ok1(3) app]
  show r: "r = 1" using ins(4) ok1(5) by (simp add: MAX_PACKET_def)
  show ring: "ring q' = [pkt]" using ins(2) [OF r] ok1(4) by simp
  have "rq_first_seq q' = pseq pkt" "rq_last_seq q' = pseq pkt"
    using insert_other_fields [OF app [unfolded append_packet_def]] by (simp_all add: q1_def)
  with ring queue_ok_append [OF ok1(1,2) app] assms(1) show "window_abs q' (e, e, [e])" by (simp add: window_abs_def)
qed

text \<open>
  A queue in use: a first packet, then packets within reach, each written when the reader has
  taken what is ready, as \<open>rtp_demuxer_input\<close> does. \<open>acc\<close> are the packets accepted, \<open>out\<close> those
  handed out, with the numbers the window gives them.
\<close>

inductive jitter_run :: "queued list \<Rightarrow> (int \<times> queued) list \<Rightarrow> seq_window \<Rightarrow> rtp_queue \<Rightarrow> bool" where
  jr_first: "pseq pkt = word_of_int e \<Longrightarrow> rtp_queue_write (\<lambda>_. True) pkt (rtp_queue_create threshold frequency) = (r, q) \<Longrightarrow>
     jitter_run [pkt] [] (e, e, [e]) q"
| jr_put: "jitter_run acc out w q \<Longrightarrow> rtp_queue_read q = (None, q) \<Longrightarrow> pseq pkt = word_of_int e \<Longrightarrow> in_reach e w \<Longrightarrow>
     rtp_queue_write (\<lambda>_. True) pkt q = (r, q') \<Longrightarrow>
     jitter_run (if r = 1 then acc @ [pkt] else acc) out (snd (window_write e w)) q'"
| jr_get: "jitter_run acc out w q \<Longrightarrow> rtp_queue_read q = (Some pkt, q') \<Longrightarrow>
     jitter_run acc (out @ [(fst (window_read w), pkt)]) (snd (window_read w)) q'"

definition handed_out :: "(int \<times> queued) list \<Rightarrow> seq_window \<Rightarrow> bool" where
  "handed_out out w \<longleftrightarrow> sorted_wrt (<) (map fst out) \<and> (\<forall>x \<in> set out. fst x < fst w \<and> pseq (snd x) = word_of_int (fst x))"

lemma jitter_run_inv:
  "jitter_run acc out w q \<Longrightarrow>
     window_abs q w \<and> handed_out out w \<and> mset acc = mset (map snd out) + mset (ring q)"
proof (induction rule: jitter_run.induct)
  case (jr_first pkt e threshold frequency r q)
  from window_first [OF this] show ?case by (simp add: handed_out_def)
next
  case (jr_put acc out w q pkt e r q')
  from window_write_sim [OF _ jr_put.hyps(2-4) _ jr_put.hyps(5)] jr_put.IH
  have "window_abs q' (snd (window_write e w))" "mset (ring q') = (if r = 1 then add_mset pkt (mset (ring q)) else mset (ring q))"
    by auto
  moreover have "fst (snd (window_write e w)) = fst w" by (simp add: window_write_def split: prod.splits)
  ultimately show ?case using jr_put.IH by (simp add: handed_out_def)
next
  case (jr_get acc out w q pkt q')
  then have abs: "window_abs q w" by simp
  note sim = window_read_sim [OF abs jr_get.hyps(2)]
  have "fst (snd (window_read w)) = fst (window_read w) + 1" by (simp add: window_read_def split: prod.splits)
  with sim jr_get.IH show ?case by (fastforce simp: handed_out_def sorted_wrt_append)
qed


definition sample_queued :: "u16 \<Rightarrow> queued" where
  "sample_queued s = (sample_rtp\<lparr>pkt_rtp := (pkt_rtp sample_rtp)\<lparr>rtp_seq := s\<rparr>\<rparr>, wire sample_rtp)"

lemma pseq_sample_queued [simp]: "pseq (sample_queued s) = s"
  by (simp add: sample_queued_def)

text \<open>The last number before the wrap, then the second one after it, then the first.\<close>

lemma jitter_sample:
  "\<exists>acc out q. jitter_run acc out (65537, 65537, [65537]) q \<and> map fst out = [65535, 65536]"
proof -
  obtain r q1 where q1: "rtp_queue_write (\<lambda>_. True) (sample_queued 65535) (rtp_queue_create 500 90000) = (r, q1)"
    by (rule prod.exhaust)
  have run1: "jitter_run [sample_queued 65535] [] (65535, 65535, [65535]) q1" by (rule jr_first [OF _ q1]) simp
  from window_read_ready [of q1 65535 65535 "[]"] jitter_run_inv [OF run1] obtain p2 q2 where q2: "rtp_queue_read q1 = (Some p2, q2)"
    by blast
  have run2: "jitter_run [sample_queued 65535] [(65535, p2)] (65536, 65535, []) q2"
    using jr_get [OF run1 q2] by (simp add: window_read_def)
  have "map pseq (ring q2) = []" using jitter_run_inv [OF run2] by (simp add: window_abs_def)
  from arg_cong [OF this, of length] have empty: "rtp_queue_read q2 = (None, q2)" by (simp add: rtp_queue_read_def)
  obtain r3 q3 where q3: "rtp_queue_write (\<lambda>_. True) (sample_queued 0) q2 = (r3, q3)" by (rule prod.exhaust)
  obtain acc3 where run3: "jitter_run acc3 [(65535, p2)] (65536, 65536, [65536]) q3"
    using jr_put [OF run2 empty _ _ q3, of 65536] by (auto simp: in_reach_def window_write_def RTP_MISORDER_def RTP_DROPOUT_def)
  from window_read_ready [of q3 65536 65536 "[]"] jitter_run_inv [OF run3] obtain p4 q4 where q4: "rtp_queue_read q3 = (Some p4, q4)"
    by blast
  have run4: "jitter_run acc3 [(65535, p2), (65536, p4)] (65537, 65536, []) q4"
    using jr_get [OF run3 q4] by (simp add: window_read_def)
  have "map pseq (ring q4) = []" using jitter_run_inv [OF run4] by (simp add: window_abs_def)
  from arg_cong [OF this, of length] have empty4: "rtp_queue_read q4 = (None, q4)" by (simp add: rtp_queue_read_def)
  obtain r5 q5 where q5: "rtp_queue_write (\<lambda>_. True) (sample_queued 1) q4 = (r5, q5)" by (rule prod.exhaust)
  obtain acc5 where "jitter_run acc5 [(65535, p2), (65536, p4)] (65537, 65537, [65537]) q5"
    using jr_put [OF run4 empty4 _ _ q5, of 65537] by (auto simp: in_reach_def window_write_def RTP_MISORDER_def RTP_DROPOUT_def)
  then show ?thesis by force
qed


text \<open>
  C13: In every history of a jitter queue, whatever is written and whether allocations succeed, the
  array accesses are in bounds: every slot the ring uses lies in the array and was written, there
  are at most 3000 of them, and the side buffer of four always has a free place.
\<close>

theorem rtp_queue_memory_safe:
  assumes "queue_reachable q"
  shows "length (rq_items q) = rq_capacity q \<and> rq_size q \<le> 3000 \<and>
    (\<forall>i < rq_size q. (rq_pos q + i) mod rq_capacity q < length (rq_items q) \<and>
       rq_items q ! ((rq_pos q + i) mod rq_capacity q) \<noteq> None) \<and>
    rq_bad_count q < length (rq_bad_items q) \<and> (\<forall>i < rq_bad_count q. rq_bad_items q ! i \<noteq> None)"
proof -
  have "queue_ok q" by (rule queue_reachable_ok [OF assms])
  moreover have "(rq_pos q + i) mod rq_capacity q < rq_capacity q" if "i < rq_size q" "rq_size q \<le> rq_capacity q" for i
    using that by (intro mod_less_divisor) simp
  ultimately show ?thesis by (auto simp: queue_ok_def ring_ok_def MAX_PACKET_def RTP_SEQUENTIAL_def)
qed

theorem rtp_queue_memory_safe_witness:
  "rq_bad_count (rtp_queue_create 500 90000) < length (rq_bad_items (rtp_queue_create 500 90000))"
  using rtp_queue_memory_safe [OF queue_created, of 500 90000] by blast

text \<open>
  C12: The ring with its binary search and array moves refines the sorted window: a write within
  reach answers 1 and inserts the number where it belongs, or answers -1 for a duplicate or a late
  packet and changes nothing; a read waits, or takes the smallest number.
\<close>

theorem rtp_queue_refines_window:
  assumes "window_abs q w"
  shows "(rtp_queue_read q = (None, q) \<and> pseq pkt = word_of_int e \<and> in_reach e w \<and>
      rtp_queue_write (\<lambda>_. True) pkt q = (r, q') \<longrightarrow>
      r = fst (window_write e w) \<and> window_abs q' (snd (window_write e w))) \<and>
    (case rtp_queue_read q of
       (None, q'') \<Rightarrow> q'' = q
     | (Some p, q'') \<Rightarrow> pseq p = word_of_int (fst (window_read w)) \<and> window_abs q'' (snd (window_read w)))"
proof -
  have "ring_ok q" using assms by (simp add: window_abs_def queue_ok_def split: prod.splits)
  obtain p q'' where rd: "rtp_queue_read q = (p, q'')" by (rule prod.exhaust)
  have "p = None \<Longrightarrow> q'' = q" using \<open>ring_ok q\<close> rd by (cases rule: rtp_queue_read_cases) simp_all
  then have "case rtp_queue_read q of (None, q'') \<Rightarrow> q'' = q
     | (Some p, q'') \<Rightarrow> pseq p = word_of_int (fst (window_read w)) \<and> window_abs q'' (snd (window_read w))"
    using window_read_sim(1,2) [OF assms] rd by (cases p) auto
  moreover have "r = fst (window_write e w) \<and> window_abs q' (snd (window_write e w))"
    if "rtp_queue_read q = (None, q)" "pseq pkt = word_of_int e" "in_reach e w" "rtp_queue_write (\<lambda>_. True) pkt q = (r, q')"
    using window_write_sim [OF assms that(1-3) _ that(4)] by simp
  ultimately show ?thesis by simp
qed

theorem rtp_queue_refines_window_witness:
  "\<exists>q p q''. rtp_queue_read q = (Some p, q'') \<and> pseq p = 65535 \<and> window_abs q'' (65536, 65535, [])"
proof -
  obtain r q1 where q1: "rtp_queue_write (\<lambda>_. True) (sample_queued 65535) (rtp_queue_create 500 90000) = (r, q1)"
    by (rule prod.exhaust)
  have abs: "window_abs q1 (65535, 65535, [65535])" by (rule window_first(2) [OF _ q1]) simp
  obtain p q'' where rd: "rtp_queue_read q1 = (Some p, q'')" using window_read_ready [OF abs] by blast
  from rtp_queue_refines_window [OF abs] rd have "pseq p = 65535" "window_abs q'' (65536, 65535, [])"
    by (simp_all add: window_read_def)
  with rd show ?thesis by (intro exI conjI)
qed

text \<open>
  C40: After a packet far outside the window the queue expects its successor before it follows the
  sender to new numbers. The expected number is computed modulo 65535, so it is the successor
  except for the last two numbers of a cycle: after 65534 it expects 0, after 65535 it expects 1.
\<close>

theorem rtp_queue_bad_seq_modulus:
  assumes "write_bad alloc pkt q = (r, q')" "rq_bad_count q < RTP_SEQUENTIAL"
  shows "rq_bad_seq q' = pseq pkt + 1 \<longleftrightarrow> pseq pkt \<noteq> 65534 \<and> pseq pkt \<noteq> 65535"
proof -
  define n where "n = unat (pseq pkt)"
  have n: "pseq pkt = of_nat n" "n < 65536" using unsigned_less [of "pseq pkt", where ?'a = nat] by (simp_all add: n_def)
  have bad: "rq_bad_seq q' = of_nat ((n + 1) mod 65535)"
    using assms by (auto simp: write_bad_def n_def RTP_SEQMOD_def Let_def split: if_splits)
  have eq: "(of_nat a :: u16) = of_nat b \<longleftrightarrow> a = b" if "a < 65536" "b < 65536" for a b
    using that by (simp add: word_eq_iff_unsigned [where ?'a = nat] unsigned_of_nat take_bit_nat_eq_self)
  consider "n < 65534" | "n = 65534" | "n = 65535" using n(2) by linarith
  then show ?thesis
  proof cases
    case 1
    then have "pseq pkt \<noteq> 65534" "pseq pkt \<noteq> 65535" using eq [of n 65534] eq [of n 65535] n by simp_all
    with 1 bad n show ?thesis by simp
  qed (simp_all add: bad n)
qed

theorem rtp_queue_bad_seq_modulus_witness:
  "rq_bad_seq (snd (write_bad (\<lambda>_. True) (sample_queued 65534) (rtp_queue_create 500 90000))) \<noteq> 65535"
proof -
  have "write_bad (\<lambda>_. True) (sample_queued 65534) (rtp_queue_create 500 90000) =
      (fst (write_bad (\<lambda>_. True) (sample_queued 65534) (rtp_queue_create 500 90000)),
       snd (write_bad (\<lambda>_. True) (sample_queued 65534) (rtp_queue_create 500 90000)))" by simp
  from rtp_queue_bad_seq_modulus [OF this]
  show ?thesis by (simp add: rtp_queue_create_def rtp_queue_reset_def rtp_queue_reset_bad_items_def RTP_SEQUENTIAL_def Let_def)
qed

end
