(* ===== verification/Rtp_Demuxer.thy ===== *)
theory Rtp_Demuxer
  imports Rtp_Queue_Props Gb28181_Receiver
begin

text \<open>
  From a datagram to the jitter queue and on to the payload decoder:
  \<open>third/ireader/librtp/source/rtp-demuxer.c\<close> and \<open>rtsp_demuxer_input\<close> of
  \<open>third/ireader/librtsp/source/utils/rtsp-demuxer.c\<close>, with \<open>receive_rtcp\<close> of the GB28181 receiver.

  Behind the queue stand the RTP statistics, the payload decoder and the RTCP handler. They are the
  functions of the record \<open>demux_library\<close> on a state \<open>'s\<close>, which contains whatever their callbacks
  change, the receiver of the stream among it. \<open>alloc\<close> answers for the ring, \<open>pkt_alloc\<close> for the
  memory of a packet of a length.
\<close>

record 's demux_library =
  dl_onreceived :: "'s \<Rightarrow> bytes \<Rightarrow> 's"
  dl_decode :: "'s \<Rightarrow> bytes \<Rightarrow> int \<times> 's"
  dl_onreceived_rtcp :: "'s \<Rightarrow> bytes \<Rightarrow> 's"

definition RTCP_FIR :: u8 where "RTCP_FIR = 192"
definition RTCP_SR :: int where "RTCP_SR = 200"
definition RTCP_LIMIT :: u8 where "RTCP_LIMIT = 223"
definition EINVAL :: int where "EINVAL = 22"
definition RTP_PAYLOAD_MAX_SIZE :: nat where "RTP_PAYLOAD_MAX_SIZE = 10 * 1024 * 1024"

definition rtp_demuxer_alloc :: "(nat \<Rightarrow> bool) \<Rightarrow> bytes \<Rightarrow> queued option" where
  "rtp_demuxer_alloc pkt_alloc data =
     (if \<not> pkt_alloc (length data) then None
      else map_option (\<lambda>pkt. (pkt, data)) (rtp_packet_deserialize data))"

lemma rtp_queue_read_size: "rtp_queue_read q = (Some p, q') \<Longrightarrow> rq_size q' < rq_size q"
  by (auto simp: rtp_queue_read_def take_head_def Let_def split: if_splits)

text \<open>The loop that passes on what the queue releases, until it waits or the decoder fails.\<close>

function release_packets :: "'s demux_library \<Rightarrow> rtp_queue \<Rightarrow> 's \<Rightarrow> int \<times> rtp_queue \<times> 's" where
  "release_packets lib q s =
     (case rtp_queue_read q of
        (None, q') \<Rightarrow> (0, q', s)
      | (Some p, q') \<Rightarrow>
          (case dl_decode lib (dl_onreceived lib s (snd p)) (snd p) of
             (r, s') \<Rightarrow> if r < 0 then (r, q', s') else release_packets lib q' s'))"
  by pat_completeness auto
termination
  by (relation "measure (\<lambda>(lib, q, s). rq_size q)") (auto dest!: sym [of "(Some _, _)"] rtp_queue_read_size)

declare release_packets.simps [simp del]

definition rtp_demuxer_input ::
  "(nat \<Rightarrow> bool) \<Rightarrow> (nat \<Rightarrow> bool) \<Rightarrow> 's demux_library \<Rightarrow> bytes \<Rightarrow> rtp_queue \<Rightarrow> 's \<Rightarrow> int \<times> rtp_queue \<times> 's" where
  "rtp_demuxer_input alloc pkt_alloc lib data q s =
     (if length data < 4 \<or> length data > RTP_PAYLOAD_MAX_SIZE then (- EINVAL, q, s)
      else
        let pt = byte_at data 1
        in if pt < RTCP_FIR \<or> pt > RTCP_LIMIT then
             (if length data < 12 then (- EINVAL, q, s)
              else case rtp_demuxer_alloc pkt_alloc data of
                None \<Rightarrow> (- ENOMEM, q, s)
              | Some pkt \<Rightarrow>
                  (case rtp_queue_write alloc pkt q of
                     (r, q') \<Rightarrow> if r \<le> 0 then (r, q', s) else release_packets lib q' s))
           else (int (unat pt), q, dl_onreceived_rtcp lib s data))"

section \<open>Payload types and sender reports\<close>

record payload_info =
  pi_payload :: int
  pi_rtp :: rtp_queue
  pi_sender_ntp_msw :: u32
  pi_sender_ntp_lsw :: u32
  pi_sender_rtp_timestamp :: u32
  pi_has_sender_report :: bool

record 's rtsp_demuxer =
  rx_pt :: "payload_info list"
  rx_idx :: nat
  rx_state :: 's

text \<open>The handling of a sender report after the packet went through.\<close>

definition note_sender_report :: "int \<Rightarrow> bytes \<Rightarrow> payload_info \<Rightarrow> payload_info" where
  "note_sender_report r packet pt =
     (if r = RTCP_SR \<and> length packet \<ge> 28 then
        let rtcp_bytes = (unat (be16_at packet 2) + 1) * 4;
            pt1 = pt\<lparr>pi_has_sender_report := False\<rparr>
        in if drop_bit 6 (byte_at packet 0) = 2 \<and> rtcp_bytes \<ge> 28 \<and> rtcp_bytes \<le> length packet
           then pt1\<lparr>pi_sender_ntp_msw := be32_at packet 8, pi_sender_ntp_lsw := be32_at packet 12,
                    pi_sender_rtp_timestamp := be32_at packet 16, pi_has_sender_report := True\<rparr>
           else pt1
      else pt)"

definition payload_matches :: "u8 \<Rightarrow> payload_info \<Rightarrow> bool" where
  "payload_matches b pt \<longleftrightarrow> int (unat (b AND 0x7F)) = pi_payload pt \<or> (192 \<le> b \<and> b \<le> 223)"

definition rtsp_demuxer_input ::
  "(nat \<Rightarrow> bool) \<Rightarrow> (nat \<Rightarrow> bool) \<Rightarrow> 's demux_library \<Rightarrow> 's rtsp_demuxer \<Rightarrow> bytes \<Rightarrow> int \<times> 's rtsp_demuxer" where
  "rtsp_demuxer_input alloc pkt_alloc lib d data =
     (if length data < 4 then (- EINVAL, d)
      else
        let count = length (rx_pt d)
        in case find (\<lambda>i. payload_matches (byte_at data 1) (rx_pt d ! (i mod count))) [rx_idx d ..< count + rx_idx d] of
             None \<Rightarrow> (0, d)
           | Some i \<Rightarrow>
               let k = i mod count; pt = rx_pt d ! k
               in case rtp_demuxer_input alloc pkt_alloc lib data (pi_rtp pt) (rx_state d) of
                    (r, q, s) \<Rightarrow>
                      (r, d\<lparr>rx_idx := k, rx_state := s, rx_pt := (rx_pt d)[k := note_sender_report r data (pt\<lparr>pi_rtp := q\<rparr>)]\<rparr>))"

text \<open>\<open>receive_rtcp\<close> of the receiver.\<close>

definition receive_rtcp :: "('d \<Rightarrow> bytes \<Rightarrow> int \<times> 'd) \<Rightarrow> 'd \<Rightarrow> bytes \<Rightarrow> bool \<times> 'd" where
  "receive_rtcp demux d data =
     (if length data \<ge> 4 then (case demux d data of (r, d') \<Rightarrow> (r > 0, d')) else (False, d))"

section \<open>One payload type, as the receiver configures it\<close>

lemma single_payload_input:
  assumes "rx_pt d = [pt]" "rx_idx d = 0" "4 \<le> length data" "payload_matches (byte_at data 1) pt"
  shows "rtsp_demuxer_input alloc pkt_alloc lib d data =
    (case rtp_demuxer_input alloc pkt_alloc lib data (pi_rtp pt) (rx_state d) of
       (r, q, s) \<Rightarrow> (r, d\<lparr>rx_state := s, rx_pt := [note_sender_report r data (pt\<lparr>pi_rtp := q\<rparr>)]\<rparr>))"
  using assms by (cases d) (auto simp: rtsp_demuxer_input_def Let_def split: prod.splits)

text \<open>The payload type of an accepted packet is in the low bits of its second byte.\<close>

lemma deserialize_pt:
  assumes "rtp_packet_deserialize data = Some packet"
  shows "rtp_pt (pkt_rtp packet) = ucast (byte_at data 1)"
proof -
  have "pkt_rtp packet = read_header data"
    using assms by (auto simp: rtp_packet_deserialize_def Let_def split: if_splits)
  then have "rtp_pt (pkt_rtp packet) = RTP_PT (first_word (byte_at data 0) (byte_at data 1) (byte_at data 2) (byte_at data 3))"
    by (simp add: read_header_def be32_at_def first_word_def numeral_2_eq_2 Let_def)
  then show ?thesis by (simp add: first_word_fields)
qed

lemma deserialize_matches:
  assumes "rtp_packet_deserialize data = Some packet" "ucast (rtp_pt (pkt_rtp packet)) = rr_payload_type r"
    and "pi_payload pt = int (unat (rr_payload_type r))"
  shows "payload_matches (byte_at data 1) pt" "12 \<le> length data"
proof -
  have "(ucast (ucast (byte_at data 1) :: 7 word) :: u8) = byte_at data 1 AND 0x7F"
    by (rule bit_word_eqI) (auto simp: bit_simps small_masks(3))
  then have "byte_at data 1 AND 0x7F = rr_payload_type r" using deserialize_pt [OF assms(1)] assms(2) by simp
  then show "payload_matches (byte_at data 1) pt" using assms(3) by (simp add: payload_matches_def)
  show "12 \<le> length data"
    using assms(1) by (auto simp: rtp_packet_deserialize_def RTP_FIXED_HEADER_def Let_def split: if_splits)
qed

text \<open>A datagram of the receiver's source and payload type.\<close>

definition media_datagram :: "rtp_receiver \<Rightarrow> payload_info \<Rightarrow> bytes \<Rightarrow> rtp_packet \<Rightarrow> bool" where
  "media_datagram r pt data packet \<longleftrightarrow>
     rtp_packet_deserialize data = Some packet \<and> ucast (rtp_pt (pkt_rtp packet)) = rr_payload_type r \<and>
     pkt_payload packet \<noteq> [] \<and> pi_payload pt = int (unat (rr_payload_type r)) \<and>
     (byte_at data 1 < RTCP_FIR \<or> RTCP_LIMIT < byte_at data 1) \<and> length data \<le> RTP_PAYLOAD_MAX_SIZE"

lemma media_demuxed:
  assumes "media_datagram r pt data packet" "rx_pt d = [pt]" "rx_idx d = 0"
  shows "rtsp_demuxer_input alloc (\<lambda>_. True) lib d data =
    (case (case rtp_queue_write alloc (packet, data) (pi_rtp pt) of
             (v, q) \<Rightarrow> if v \<le> 0 then (v, q, rx_state d) else release_packets lib q (rx_state d)) of
       (v, q, s) \<Rightarrow> (v, d\<lparr>rx_state := s, rx_pt := [note_sender_report v data (pt\<lparr>pi_rtp := q\<rparr>)]\<rparr>))"
proof -
  have m: "payload_matches (byte_at data 1) pt" "12 \<le> length data"
    using assms(1) deserialize_matches [of data packet r pt] by (simp_all add: media_datagram_def)
  have "rtp_demuxer_input alloc (\<lambda>_. True) lib data (pi_rtp pt) (rx_state d) =
      (case rtp_queue_write alloc (packet, data) (pi_rtp pt) of
         (v, q) \<Rightarrow> if v \<le> 0 then (v, q, rx_state d) else release_packets lib q (rx_state d))"
    using assms(1) m by (auto simp: rtp_demuxer_input_def media_datagram_def rtp_demuxer_alloc_def Let_def split: prod.splits)
  then show ?thesis using single_payload_input [OF assms(2,3) _ m(1), of alloc "\<lambda>_. True" lib] m(2) by simp
qed

lemma media_received:
  assumes "media_datagram r pt data packet" "rtp_ssrc (pkt_rtp packet) = rr_expected_ssrc r"
  shows "receive_rtp demux r d data = (case demux d data of (v, d') \<Rightarrow> (if v < 0 then Fatal else Accepted, d'))"
  using assms deserialize_matches(2) [of data packet r pt] by (simp add: media_datagram_def receive_rtp_def)

text \<open>
  C18: A duplicate or late packet ends the reception. When the jitter queue of the receiver's
  demuxer holds a window, a datagram of the expected source whose number is waiting in it, or was
  handed out less than 300 numbers ago, is answered with -1, which the receiver takes for a fatal
  error, although the header of the queue documents 0 for a discarded packet.
\<close>

theorem duplicate_datagram_is_fatal:
  assumes "rx_pt d = [pt]" "rx_idx d = 0" "window_abs (pi_rtp pt) (first, newest, es)"
    and "rtp_queue_read (pi_rtp pt) = (None, pi_rtp pt)"
    and "media_datagram r pt data packet" "rtp_ssrc (pkt_rtp packet) = rr_expected_ssrc r"
    and "rtp_seq (pkt_rtp packet) = word_of_int e" "in_reach e (first, newest, es)" "e < first \<or> e \<in> set es"
  shows "fst (receive_rtp (rtsp_demuxer_input (\<lambda>_. True) (\<lambda>_. True) lib) r d data) = Fatal"
proof -
  obtain v q where w: "rtp_queue_write (\<lambda>_. True) (packet, data) (pi_rtp pt) = (v, q)" by (rule prod.exhaust)
  have "v = -1"
    using window_write_sim [OF assms(3,4) _ assms(8) _ w] assms(7,9) by (auto simp: window_write_def)
  then show ?thesis by (simp add: media_received [OF assms(5,6)] media_demuxed [OF assms(5,1,2)] w)
qed

text \<open>A demuxer after \<open>rtsp_demuxer_add_payload\<close>, as the start of the receiver leaves it.\<close>

definition ps_demuxer :: "u8 \<Rightarrow> 's \<Rightarrow> 's rtsp_demuxer" where
  "ps_demuxer payload s =
     \<lparr>rx_pt = [\<lparr>pi_payload = int (unat payload), pi_rtp = rtp_queue_create 500 90000, pi_sender_ntp_msw = 0, pi_sender_ntp_lsw = 0,
                pi_sender_rtp_timestamp = 0, pi_has_sender_report = False\<rparr>], rx_idx = 0, rx_state = s\<rparr>"

text \<open>The first datagram goes through the queue and leaves it empty, waiting for the next number.\<close>

lemma first_datagram:
  assumes media: "media_datagram r (hd (rx_pt (ps_demuxer (rr_payload_type r) s))) data packet"
    and ssrc: "rtp_ssrc (pkt_rtp packet) = rr_expected_ssrc r" "rtp_seq (pkt_rtp packet) = word_of_int e"
    and dec: "dl_decode lib (dl_onreceived lib s data) data = (v, s')" "0 \<le> v"
  shows "\<exists>d pt. receive_rtp (rtsp_demuxer_input (\<lambda>_. True) (\<lambda>_. True) lib) r (ps_demuxer (rr_payload_type r) s) data = (Accepted, d) \<and>
    rx_pt d = [pt] \<and> rx_idx d = 0 \<and> rx_state d = s' \<and> pi_payload pt = int (unat (rr_payload_type r)) \<and>
    window_abs (pi_rtp pt) (e + 1, e, []) \<and> rtp_queue_read (pi_rtp pt) = (None, pi_rtp pt)"
proof -
  define d0 where "d0 = ps_demuxer (rr_payload_type r) s"
  define pt0 where "pt0 = hd (rx_pt d0)"
  have d0: "rx_pt d0 = [pt0]" "rx_idx d0 = 0" "rx_state d0 = s" "pi_rtp pt0 = rtp_queue_create 500 90000"
    "pi_payload pt0 = int (unat (rr_payload_type r))" by (simp_all add: d0_def pt0_def ps_demuxer_def)
  obtain w q1 where w: "rtp_queue_write (\<lambda>_. True) (packet, data) (rtp_queue_create 500 90000) = (w, q1)" by (rule prod.exhaust)
  note one = window_first [OF _ w, of e, simplified, OF ssrc(2)]
  obtain q2 where q2: "rtp_queue_read q1 = (Some (packet, data), q2)" using window_read_ready [OF one(2)] one(3) by auto
  have abs: "window_abs q2 (e + 1, e, [])" using window_read_sim(2) [OF one(2) q2] by (simp add: window_read_def)
  then have "map pseq (ring q2) = []" by (simp add: window_abs_def)
  from arg_cong [OF this, of length] have empty: "rtp_queue_read q2 = (None, q2)" by (simp add: rtp_queue_read_def)
  have "release_packets lib q2 s' = (0, q2, s')" by (subst release_packets.simps) (simp add: empty)
  then have "release_packets lib q1 s = (0, q2, s')" using dec by (subst release_packets.simps) (simp add: q2)
  then have "receive_rtp (rtsp_demuxer_input (\<lambda>_. True) (\<lambda>_. True) lib) r d0 data =
      (Accepted, d0\<lparr>rx_state := s', rx_pt := [pt0\<lparr>pi_rtp := q2\<rparr>]\<rparr>)"
    using media_received [OF media [folded d0_def, folded pt0_def] ssrc(1), of "rtsp_demuxer_input (\<lambda>_. True) (\<lambda>_. True) lib" d0]
      media_demuxed [OF media [folded d0_def, folded pt0_def] d0(1,2), of "\<lambda>_. True" lib] one(1) w d0
    by (simp add: note_sender_report_def RTCP_SR_def)
  with abs empty d0 show ?thesis unfolding d0_def [symmetric]
    by (intro exI [of _ "d0\<lparr>rx_state := s', rx_pt := [pt0\<lparr>pi_rtp := q2\<rparr>]\<rparr>"] exI [of _ "pt0\<lparr>pi_rtp := q2\<rparr>"]) simp
qed

definition sink_library :: "bytes list demux_library" where
  "sink_library = \<lparr>dl_onreceived = (\<lambda>s _. s), dl_decode = (\<lambda>s p. (0, s @ [p])), dl_onreceived_rtcp = (\<lambda>s _. s)\<rparr>"

definition sample_receiver :: rtp_receiver where
  "sample_receiver = new_rtp_receiver ''cam'' 96 0x01020304"

lemma sample_media:
  "pi_payload pt = 96 \<Longrightarrow> media_datagram sample_receiver pt (wire sample_rtp) sample_rtp"
proof -
  have w: "rtp_packet_deserialize (wire sample_rtp) = Some sample_rtp"
    by (rule wire_reads) (simp add: packet_ok_def sample_rtp_def RTP_VERSION_def)
  have len: "length (wire sample_rtp) = 28"
    by (subst length_wire) (simp_all add: packet_ok_def packet_bytes_def sample_rtp_def RTP_VERSION_def)
  have "byte_at (wire sample_rtp) 1 = 224"
    by (simp add: wire_def byte_at_def sample_rtp_def nbo_write_rtp_header_def)
  then show "pi_payload pt = 96 \<Longrightarrow> ?thesis"
    by (simp add: media_datagram_def w len sample_receiver_def new_rtp_receiver_def RTCP_FIR_def RTCP_LIMIT_def
        RTP_PAYLOAD_MAX_SIZE_def) (simp add: sample_rtp_def)
qed

text \<open>The same datagram twice: accepted, then fatal.\<close>

theorem duplicate_datagram_is_fatal_witness:
  "\<exists>d. receive_rtp (rtsp_demuxer_input (\<lambda>_. True) (\<lambda>_. True) sink_library) sample_receiver (ps_demuxer 96 []) (wire sample_rtp) =
     (Accepted, d) \<and>
   fst (receive_rtp (rtsp_demuxer_input (\<lambda>_. True) (\<lambda>_. True) sink_library) sample_receiver d (wire sample_rtp)) = Fatal"
proof -
  have pt: "rr_payload_type sample_receiver = 96" by (simp add: sample_receiver_def new_rtp_receiver_def)
  have h: "rtp_ssrc (pkt_rtp sample_rtp) = rr_expected_ssrc sample_receiver" "rtp_seq (pkt_rtp sample_rtp) = word_of_int 65535"
    by (simp_all add: sample_receiver_def new_rtp_receiver_def sample_rtp_def)
  have "dl_decode sink_library (dl_onreceived sink_library [] (wire sample_rtp)) (wire sample_rtp) = (0, [wire sample_rtp])"
    by (simp add: sink_library_def)
  from first_datagram [OF sample_media h this] obtain d pt' where
    d: "receive_rtp (rtsp_demuxer_input (\<lambda>_. True) (\<lambda>_. True) sink_library) sample_receiver (ps_demuxer 96 []) (wire sample_rtp) = (Accepted, d)"
      "rx_pt d = [pt']" "rx_idx d = 0" "pi_payload pt' = 96" "window_abs (pi_rtp pt') (65536, 65535, [])"
      "rtp_queue_read (pi_rtp pt') = (None, pi_rtp pt')" by (auto simp: pt ps_demuxer_def)
  have "fst (receive_rtp (rtsp_demuxer_input (\<lambda>_. True) (\<lambda>_. True) sink_library) sample_receiver d (wire sample_rtp)) = Fatal"
    by (rule duplicate_datagram_is_fatal [OF d(2,3,5,6) sample_media [OF d(4)] h])
      (simp_all add: in_reach_def RTP_MISORDER_def RTP_DROPOUT_def)
  with d(1) show ?thesis by blast
qed



end
