(* ===== verification/Gb28181_Udp_Receiver.thy ===== *)
theory Gb28181_Udp_Receiver
  imports Rtp_Demuxer Udp_Transport Port_Pool Idle_Timer Session_Registry
begin

text \<open>
  \<open>media/gb28181/gb28181_udp_receiver_session.cpp\<close>: a pair of UDP ports on which a device sends RTP
  and RTCP. The session learns the device's address from its first accepted packet.

  The session is composed of the models of its parts: the RTP receiver with its demuxer
  (\<open>ur_media\<close>, the demuxer's callbacks may change both), two UDP transports, the idle timer, and the
  port pool and registries it is given. Its two coroutines are cut where they wait for a
  datagram. \<open>ur_waits\<close> counts the timer handlers still to run, \<open>ur_posted\<close> the posted shutdowns,
  \<open>ur_posted_ssrc\<close> the posted changes of the source. A cancelled wait may complete with or without
  an error, as its completion may already be queued.
\<close>

type_synonym udp_endpoint = "bytes \<times> u16"

record 'd udp_receiver_session =
  ur_media :: "rtp_receiver \<times> 'd"
  ur_rtp :: "udp_endpoint udp_transport"
  ur_rtcp :: "udp_endpoint udp_transport"
  ur_local_port :: "u16 option"
  ur_waits :: nat
  ur_idle :: idle_timer
  ur_remote_rtp :: "udp_endpoint option"
  ur_remote_rtcp :: "udp_endpoint option"
  ur_rtp_running :: bool
  ur_rtcp_running :: bool
  ur_posted :: nat
  ur_posted_ssrc :: "u32 list"

definition new_udp_receiver :: "string \<Rightarrow> u8 \<Rightarrow> u32 \<Rightarrow> 'd \<Rightarrow> 'd udp_receiver_session" where
  "new_udp_receiver stream_id payload_type ssrc d =
     \<lparr>ur_media = (new_rtp_receiver stream_id payload_type ssrc, d), ur_rtp = new_udp_transport, ur_rtcp = new_udp_transport,
      ur_local_port = None, ur_waits = 0, ur_idle = new_idle_timer, ur_remote_rtp = None, ur_remote_rtcp = None,
      ur_rtp_running = False, ur_rtcp_running = False, ur_posted = 0, ur_posted_ssrc = []\<rparr>"

definition ur_shutdown :: "'d udp_receiver_session \<Rightarrow> 'd udp_receiver_session" where
  "ur_shutdown s = s\<lparr>ur_posted := ur_posted s + 1\<rparr>"

definition ur_update_ssrc :: "u32 \<Rightarrow> 'd udp_receiver_session \<Rightarrow> 'd udp_receiver_session" where
  "ur_update_ssrc ssrc s = s\<lparr>ur_posted_ssrc := ur_posted_ssrc s @ [ssrc]\<rparr>"

definition ur_run_ssrc :: "'d udp_receiver_session \<Rightarrow> 'd udp_receiver_session" where
  "ur_run_ssrc s =
     (case ur_posted_ssrc s of [] \<Rightarrow> s
      | ssrc # rest \<Rightarrow> s\<lparr>ur_posted_ssrc := rest, ur_media := apfst (set_expected_ssrc ssrc) (ur_media s)\<rparr>)"

definition ur_schedule_rtcp :: "'d udp_receiver_session \<Rightarrow> 'd udp_receiver_session" where
  "ur_schedule_rtcp s = (if ur_local_port s = None then s else s\<lparr>ur_waits := ur_waits s + 1\<rparr>)"

text \<open>\<open>startup\<close>: \<open>started\<close> is the receiver's answer with its new state, \<open>spawned\<close> whether the worker still runs coroutines.\<close>

definition ur_startup ::
  "stream_ref \<Rightarrow> worker \<Rightarrow> bool \<Rightarrow> bool \<Rightarrow> 'd \<Rightarrow> bool \<Rightarrow> socket_calls \<Rightarrow> socket_calls \<Rightarrow> bool \<Rightarrow> int \<Rightarrow>
   media_port_pool \<Rightarrow> 'd udp_receiver_session \<Rightarrow> u16 option \<times> 'd udp_receiver_session \<times> media_port_pool" where
  "ur_startup ref w created configured d unspecified os_rtp os_rtcp spawned now pool s =
     (case receiver_startup ref w created configured (fst (ur_media s)) of
        (ok, r) \<Rightarrow>
          let s1 = s\<lparr>ur_media := (r, d)\<rparr>
          in if \<not> ok then (None, s1, pool)
             else case acquire pool of
               (None, pool') \<Rightarrow> (None, s1\<lparr>ur_local_port := None\<rparr>, pool')
             | (Some port, pool') \<Rightarrow>
                 let s2 = s1\<lparr>ur_local_port := Some port\<rparr>
                 in case udp_startup unspecified MediaInput os_rtp (ur_rtp s2) of
                      (e1, t1) \<Rightarrow>
                        let s3 = s2\<lparr>ur_rtp := t1\<rparr>
                        in if e1 \<noteq> None then (None, s3, pool')
                           else case udp_startup unspecified SystemDefault os_rtcp (ur_rtcp s3) of
                             (e2, t2) \<Rightarrow>
                               let s4 = s3\<lparr>ur_rtcp := t2\<rparr>
                               in if e2 \<noteq> None then (None, s4, pool')
                                  else
                                    let s5 = s4\<lparr>ur_rtcp := set_error_callback (ur_rtcp s4),
                                                ur_rtp_running := spawned, ur_rtcp_running := spawned\<rparr>;
                                        s6 = ur_schedule_rtcp s5
                                    in (ur_local_port s6, s6\<lparr>ur_idle := idle_start now (ur_idle s6)\<rparr>, pool'))"

text \<open>\<open>run_rtp\<close> after a read: an error, or a datagram of an endpoint.\<close>

definition ur_on_rtp ::
  "(rtp_receiver \<times> 'd \<Rightarrow> bytes \<Rightarrow> int \<times> rtp_receiver \<times> 'd) \<Rightarrow> socket_calls \<Rightarrow> int \<Rightarrow> bool \<Rightarrow> bytes \<Rightarrow> udp_endpoint \<Rightarrow>
   'd udp_receiver_session \<Rightarrow> 'd udp_receiver_session" where
  "ur_on_rtp demux os now error data endpoint s =
     (if ur_local_port s = None then s\<lparr>ur_rtp_running := False\<rparr>
      else if error then ur_shutdown (s\<lparr>ur_rtp_running := False\<rparr>)
      else
        let s1 = s\<lparr>ur_idle := idle_touch now (ur_idle s)\<rparr>
        in case receive_rtp demux (fst (ur_media s1)) (ur_media s1) data of
             (result, m) \<Rightarrow>
               let s2 = s1\<lparr>ur_media := m\<rparr>
               in if result = Fatal then ur_shutdown (s2\<lparr>ur_rtp_running := False\<rparr>)
                  else if result = Accepted \<and> ur_remote_rtp s2 = None then
                    (if udp_connect os (ur_rtp s2) \<noteq> None then ur_shutdown (s2\<lparr>ur_rtp_running := False\<rparr>)
                     else s2\<lparr>ur_remote_rtp := Some endpoint\<rparr>)
                  else s2)"

definition ur_on_rtcp ::
  "(rtp_receiver \<times> 'd \<Rightarrow> bytes \<Rightarrow> int \<times> rtp_receiver \<times> 'd) \<Rightarrow> socket_calls \<Rightarrow> bool \<Rightarrow> bytes \<Rightarrow> udp_endpoint \<Rightarrow>
   'd udp_receiver_session \<Rightarrow> 'd udp_receiver_session" where
  "ur_on_rtcp demux os error data endpoint s =
     (if ur_local_port s = None then s\<lparr>ur_rtcp_running := False\<rparr>
      else if error then ur_shutdown (s\<lparr>ur_rtcp_running := False\<rparr>)
      else case receive_rtcp demux (ur_media s) data of
        (received, m) \<Rightarrow>
          let s1 = s\<lparr>ur_media := m\<rparr>
          in if \<not> received \<or> ur_remote_rtcp s1 \<noteq> None then s1
             else case ur_remote_rtp s1 of
               None \<Rightarrow> s1
             | Some remote \<Rightarrow>
                 if fst endpoint \<noteq> fst remote then s1
                 else if udp_connect os (ur_rtcp s1) \<noteq> None then ur_shutdown (s1\<lparr>ur_rtcp_running := False\<rparr>)
                 else s1\<lparr>ur_remote_rtcp := Some endpoint\<rparr>)"

text \<open>Where a report goes: the learnt address, or the RTP port plus one when there is one.\<close>

definition rtcp_target :: "'d udp_receiver_session \<Rightarrow> udp_endpoint option" where
  "rtcp_target s =
     (case ur_remote_rtcp s of
        Some endpoint \<Rightarrow> Some endpoint
      | None \<Rightarrow> (case ur_remote_rtp s of
                  Some (address, port) \<Rightarrow> if port \<noteq> 0xffff then Some (address, port + 1) else None
                | None \<Rightarrow> None))"

text \<open>The handler of \<open>schedule_rtcp\<close>; \<open>generate\<close> is \<open>generate_rtcp\<close> with the bytes of its buffer, none for a result that is not positive.\<close>

definition ur_on_timer ::
  "(rtp_receiver \<times> 'd \<Rightarrow> bytes \<times> rtp_receiver \<times> 'd) \<Rightarrow> send_result \<Rightarrow> bool \<Rightarrow> 'd udp_receiver_session \<Rightarrow> 'd udp_receiver_session" where
  "ur_on_timer generate sent error s0 =
     (let s = s0\<lparr>ur_waits := ur_waits s0 - 1\<rparr>
      in if error \<or> ur_local_port s = None then s
         else case rtcp_target s of
           None \<Rightarrow> ur_schedule_rtcp s
         | Some target \<Rightarrow>
             (case generate (ur_media s) of
                (report, m) \<Rightarrow>
                  let s1 = s\<lparr>ur_media := m\<rparr>
                  in ur_schedule_rtcp
                       (if report \<noteq> [] then s1\<lparr>ur_rtcp := snd (udp_write sent report target (ur_rtcp s1))\<rparr> else s1)))"

text \<open>The transports run their callbacks: \<open>n\<close> error callbacks ran before.\<close>

definition ur_rtcp_failed :: "nat \<Rightarrow> 'd udp_receiver_session \<Rightarrow> 'd udp_receiver_session" where
  "ur_rtcp_failed n s = (if ut_errors (ur_rtcp s) \<noteq> n \<and> ur_local_port s \<noteq> None then ur_shutdown s else s)"

definition ur_posted_error :: "'d udp_receiver_session \<Rightarrow> 'd udp_receiver_session" where
  "ur_posted_error s = ur_rtcp_failed (ut_errors (ur_rtcp s)) (s\<lparr>ur_rtcp := run_posted_error (ur_rtcp s)\<rparr>)"

definition ur_rtcp_sent :: "bool \<Rightarrow> 'd udp_receiver_session \<Rightarrow> 'd udp_receiver_session" where
  "ur_rtcp_sent error s = ur_rtcp_failed (ut_errors (ur_rtcp s)) (s\<lparr>ur_rtcp := udp_complete error (ur_rtcp s)\<rparr>)"

definition ur_idle_expired :: "int \<Rightarrow> bool \<Rightarrow> bool \<Rightarrow> 'd udp_receiver_session \<Rightarrow> 'd udp_receiver_session" where
  "ur_idle_expired now error owner s =
     (let s1 = s\<lparr>ur_idle := idle_expired now error owner (ur_idle s)\<rparr>
      in if it_fired (ur_idle s1) \<noteq> it_fired (ur_idle s) then ur_shutdown s1 else s1)"

definition ur_safe_shutdown ::
  "session_ref \<Rightarrow> (sink_id \<Rightarrow> bool) \<Rightarrow> 'd udp_receiver_session \<Rightarrow> session_registry \<Rightarrow> stream_registry \<Rightarrow> media_port_pool \<Rightarrow>
   'd udp_receiver_session \<times> session_registry \<times> stream_registry \<times> media_port_pool" where
  "ur_safe_shutdown self live s sessions streams pool =
     (let sessions' = remove_receiver_session (rr_stream_id (fst (ur_media s))) self sessions;
          (ended, r, streams') = receiver_shutdown live (fst (ur_media s)) streams;
          s1 = s\<lparr>ur_posted := ur_posted s - 1, ur_idle := idle_stop (ur_idle s), ur_rtp := udp_shutdown (ur_rtp s),
                 ur_rtcp := udp_shutdown (ur_rtcp s), ur_media := (r, snd (ur_media s))\<rparr>
      in case ur_local_port s1 of
           None \<Rightarrow> (s1, sessions', streams', pool)
         | Some port \<Rightarrow> (s1\<lparr>ur_local_port := None\<rparr>, sessions', streams', release port pool))"

section \<open>Every history of a session, among the other users of the pool\<close>

text \<open>What the session relies on: neither the demuxer's callbacks nor the report destroy the demuxer.\<close>

definition keeps_demuxer ::
  "(rtp_receiver \<times> 'd \<Rightarrow> bytes \<Rightarrow> int \<times> rtp_receiver \<times> 'd) \<Rightarrow> (rtp_receiver \<times> 'd \<Rightarrow> bytes \<times> rtp_receiver \<times> 'd) \<Rightarrow> bool" where
  "keeps_demuxer demux generate \<longleftrightarrow>
     (\<forall>m data. rr_demuxer (fst (snd (demux m data))) = rr_demuxer (fst m)) \<and>
     (\<forall>m. rr_demuxer (fst (snd (generate m))) = rr_demuxer (fst m))"

inductive ur_step ::
  "(rtp_receiver \<times> 'd \<Rightarrow> bytes \<Rightarrow> int \<times> rtp_receiver \<times> 'd) \<Rightarrow> (rtp_receiver \<times> 'd \<Rightarrow> bytes \<times> rtp_receiver \<times> 'd) \<Rightarrow>
   'd udp_receiver_session \<times> media_port_pool \<Rightarrow> 'd udp_receiver_session \<times> media_port_pool \<Rightarrow> bool"
  for demux generate where
  ur_rtp_read: "ur_rtp_running s \<Longrightarrow> ur_step demux generate (s, pool) (ur_on_rtp demux os now e data endpoint s, pool)"
| ur_rtcp_read: "ur_rtcp_running s \<Longrightarrow> ur_step demux generate (s, pool) (ur_on_rtcp demux os e data endpoint s, pool)"
| ur_timer: "0 < ur_waits s \<Longrightarrow> ur_step demux generate (s, pool) (ur_on_timer generate sent e s, pool)"
| ur_error: "ut_posted_errors (ur_rtcp s) \<noteq> 0 \<Longrightarrow> ur_step demux generate (s, pool) (ur_posted_error s, pool)"
| ur_sent: "ut_inflight (ur_rtcp s) \<noteq> [] \<Longrightarrow> ur_step demux generate (s, pool) (ur_rtcp_sent e s, pool)"
| ur_idles: "ur_step demux generate (s, pool) (ur_idle_expired now e owner s, pool)"
| ur_ssrc: "ur_step demux generate (s, pool) (ur_update_ssrc ssrc s, pool)"
| ur_ssrc_runs: "ur_step demux generate (s, pool) (ur_run_ssrc s, pool)"
| ur_stop: "ur_step demux generate (s, pool) (ur_shutdown s, pool)"
| ur_stopped: "0 < ur_posted s \<Longrightarrow> ur_safe_shutdown self live s sessions streams pool = (s', sessions', streams', pool') \<Longrightarrow>
     ur_step demux generate (s, pool) (s', pool')"
| ur_pool_acquire: "ur_step demux generate (s, pool) (s, snd (acquire pool))"
| ur_pool_release: "ur_local_port s \<noteq> Some port \<Longrightarrow> ur_step demux generate (s, pool) (s, release port pool)"

inductive ur_run ::
  "(rtp_receiver \<times> 'd \<Rightarrow> bytes \<Rightarrow> int \<times> rtp_receiver \<times> 'd) \<Rightarrow> (rtp_receiver \<times> 'd \<Rightarrow> bytes \<times> rtp_receiver \<times> 'd) \<Rightarrow>
   'd udp_receiver_session \<times> media_port_pool \<Rightarrow> bool"
  for demux generate where
  ur_started: "port_pool_inv pool \<Longrightarrow>
     ur_startup ref w created configured d u os1 os2 sp now pool (new_udp_receiver name pt ssrc d0) = (p, s, pool') \<Longrightarrow>
     ur_run demux generate (s, pool')"
| ur_next: "ur_run demux generate x \<Longrightarrow> ur_step demux generate x y \<Longrightarrow> ur_run demux generate y"

section \<open>Addresses, the demuxer and the port\<close>

definition same_host :: "udp_endpoint \<Rightarrow> 'd udp_receiver_session \<Rightarrow> bool" where
  "same_host e s \<longleftrightarrow> (\<exists>r. ur_remote_rtp s = Some r \<and> fst e = fst r)"

definition ur_inv :: "'d udp_receiver_session \<Rightarrow> bool" where
  "ur_inv s \<longleftrightarrow>
     (\<forall>e. ur_remote_rtcp s = Some e \<longrightarrow> same_host e s) \<and>
     (\<forall>x \<in> set (ut_accepted (ur_rtcp s)). same_host (snd x) s) \<and>
     (ur_local_port s \<noteq> None \<longrightarrow> rr_demuxer (fst (ur_media s))) \<and> ur_waits s \<le> 1"

definition pool_holds :: "'d udp_receiver_session \<Rightarrow> media_port_pool \<Rightarrow> bool" where
  "pool_holds s pool \<longleftrightarrow> port_pool_inv pool \<and> (\<forall>p. ur_local_port s = Some p \<longrightarrow> p \<in> set (used_ports pool))"

lemma accepted_complete [simp]: "ut_accepted (udp_complete e t) = ut_accepted t"
  by (simp add: udp_complete_def udp_on_write_def start_write_def Let_def split: list.splits)

lemma accepted_other [simp]:
  "ut_accepted (run_posted_error t) = ut_accepted t" "ut_accepted (udp_shutdown t) = ut_accepted t"
  "ut_accepted (set_error_callback t) = ut_accepted t"
  by (simp_all add: run_posted_error_def udp_shutdown_def set_error_callback_def)

lemma accepted_write:
  "set (ut_accepted (snd (udp_write sent data target t))) \<subseteq> insert (data, target) (set (ut_accepted t))"
  by (auto simp: udp_write_def enqueue_datagram_def start_write_def Let_def)

lemma accepted_startup: "udp_startup u b os t = (e, t') \<Longrightarrow> ut_accepted t' = ut_accepted t"
  by (auto simp: udp_startup_def Let_def split: if_splits)

lemma receive_keeps:
  assumes "keeps_demuxer demux generate"
  shows "receive_rtp demux r m data = (v, m') \<Longrightarrow> rr_demuxer (fst m') = rr_demuxer (fst m)"
    and "receive_rtcp demux m data = (b, m') \<Longrightarrow> rr_demuxer (fst m') = rr_demuxer (fst m)"
    and "generate m = (report, m') \<Longrightarrow> rr_demuxer (fst m') = rr_demuxer (fst m)"
proof -
  have k: "demux m data = (n, m') \<Longrightarrow> rr_demuxer (fst m') = rr_demuxer (fst m)" for n m'
    using assms unfolding keeps_demuxer_def by (metis snd_conv)
  show "receive_rtp demux r m data = (v, m') \<Longrightarrow> rr_demuxer (fst m') = rr_demuxer (fst m)"
    by (auto simp: receive_rtp_def dest: k split: if_splits option.splits prod.splits)
  show "receive_rtcp demux m data = (b, m') \<Longrightarrow> rr_demuxer (fst m') = rr_demuxer (fst m)"
    by (auto simp: receive_rtcp_def dest: k split: if_splits prod.splits)
  show "generate m = (report, m') \<Longrightarrow> rr_demuxer (fst m') = rr_demuxer (fst m)"
    using assms unfolding keeps_demuxer_def by (metis snd_conv)
qed

text \<open>The step leaves what was learnt, and the port unless it shuts down.\<close>

lemma ur_on_rtp_inv:
  assumes "keeps_demuxer demux generate" "ur_inv s"
  shows "ur_inv (ur_on_rtp demux os now e data endpoint s)"
    "ur_local_port (ur_on_rtp demux os now e data endpoint s) = ur_local_port s"
    "ur_remote_rtp s = Some r \<Longrightarrow> ur_remote_rtp (ur_on_rtp demux os now e data endpoint s) = Some r"
    "ur_remote_rtcp (ur_on_rtp demux os now e data endpoint s) = ur_remote_rtcp s"
proof -
  obtain v m where m: "receive_rtp demux (fst (ur_media s)) (ur_media s) data = (v, m)" by (rule prod.exhaust)
  note k = receive_keeps(1) [OF assms(1) m]
  show "ur_inv (ur_on_rtp demux os now e data endpoint s)"
    using assms(2) k by (auto simp: ur_on_rtp_def ur_inv_def same_host_def ur_shutdown_def m Let_def)
  show "ur_local_port (ur_on_rtp demux os now e data endpoint s) = ur_local_port s"
    "ur_remote_rtp s = Some r \<Longrightarrow> ur_remote_rtp (ur_on_rtp demux os now e data endpoint s) = Some r"
    "ur_remote_rtcp (ur_on_rtp demux os now e data endpoint s) = ur_remote_rtcp s"
    by (auto simp: ur_on_rtp_def ur_shutdown_def m Let_def)
qed

lemma ur_on_rtcp_inv:
  assumes "keeps_demuxer demux generate" "ur_inv s"
  shows "ur_inv (ur_on_rtcp demux os e data endpoint s)"
    "ur_local_port (ur_on_rtcp demux os e data endpoint s) = ur_local_port s"
    "ur_remote_rtp (ur_on_rtcp demux os e data endpoint s) = ur_remote_rtp s"
    "ur_remote_rtcp s = Some t \<Longrightarrow> ur_remote_rtcp (ur_on_rtcp demux os e data endpoint s) = Some t"
proof -
  obtain v m where m: "receive_rtcp demux (ur_media s) data = (v, m)" by (rule prod.exhaust)
  note k = receive_keeps(2) [OF assms(1) m]
  show "ur_inv (ur_on_rtcp demux os e data endpoint s)"
    using assms(2) k by (cases "ur_remote_rtp s") (auto simp: ur_on_rtcp_def ur_inv_def same_host_def ur_shutdown_def m Let_def)
  show "ur_local_port (ur_on_rtcp demux os e data endpoint s) = ur_local_port s"
    "ur_remote_rtp (ur_on_rtcp demux os e data endpoint s) = ur_remote_rtp s"
    "ur_remote_rtcp s = Some t \<Longrightarrow> ur_remote_rtcp (ur_on_rtcp demux os e data endpoint s) = Some t"
    by (cases "ur_remote_rtp s"; auto simp: ur_on_rtcp_def ur_shutdown_def m Let_def)+
qed

lemma rtcp_target_host: "ur_inv s \<Longrightarrow> rtcp_target s = Some t \<Longrightarrow> same_host t s"
  by (auto simp: rtcp_target_def ur_inv_def same_host_def split: option.splits if_splits)

lemma ur_on_timer_fields [simp]:
  "ur_local_port (ur_on_timer generate sent e s) = ur_local_port s"
  "ur_remote_rtp (ur_on_timer generate sent e s) = ur_remote_rtp s"
  "ur_remote_rtcp (ur_on_timer generate sent e s) = ur_remote_rtcp s"
  by (simp_all add: ur_on_timer_def ur_schedule_rtcp_def Let_def split: option.splits prod.splits)

lemma ur_on_timer_inv:
  assumes "keeps_demuxer demux generate" "ur_inv s" "0 < ur_waits s"
  shows "ur_inv (ur_on_timer generate sent e s)"
proof -
  define s0 where "s0 = s\<lparr>ur_waits := ur_waits s - 1\<rparr>"
  have inv: "ur_inv s0" "ur_waits s0 = 0" using assms(2,3) by (auto simp: s0_def ur_inv_def same_host_def)
  have eq: "ur_on_timer generate sent e s =
      (if e \<or> ur_local_port s0 = None then s0
       else case rtcp_target s0 of None \<Rightarrow> ur_schedule_rtcp s0
         | Some target \<Rightarrow> (case generate (ur_media s0) of (report, m) \<Rightarrow> ur_schedule_rtcp
             (if report \<noteq> [] then s0\<lparr>ur_media := m, ur_rtcp := snd (udp_write sent report target (ur_rtcp s0))\<rparr>
              else s0\<lparr>ur_media := m\<rparr>)))"
    unfolding ur_on_timer_def s0_def [symmetric] Let_def by (simp split: option.splits prod.splits)
  consider "e \<or> ur_local_port s0 = None" | "\<not> e" "ur_local_port s0 \<noteq> None" "rtcp_target s0 = None"
    | t where "\<not> e" "ur_local_port s0 \<noteq> None" "rtcp_target s0 = Some t" by (cases "rtcp_target s0") auto
  then show ?thesis
  proof cases
    case 1
    then show ?thesis using inv unfolding eq by auto
  next
    case 2
    then show ?thesis using inv unfolding eq by (auto simp: ur_schedule_rtcp_def ur_inv_def same_host_def)
  next
    case 3
    obtain report m where m: "generate (ur_media s0) = (report, m)" by (rule prod.exhaust)
    have "rr_demuxer (fst m) = rr_demuxer (fst (ur_media s0))" by (rule receive_keeps(3) [OF assms(1) m])
    with 3 inv rtcp_target_host [OF inv(1) 3(3)] accepted_write [of sent report t "ur_rtcp s0"] show ?thesis
      unfolding eq by (auto simp: m ur_schedule_rtcp_def ur_inv_def same_host_def)
  qed
qed

lemma ur_failed_inv: "ur_inv s \<Longrightarrow> ur_inv (ur_rtcp_failed n s)"
  by (simp add: ur_rtcp_failed_def ur_shutdown_def ur_inv_def same_host_def)

lemma ur_failed_fields [simp]:
  "ur_local_port (ur_rtcp_failed n s) = ur_local_port s" "ur_remote_rtp (ur_rtcp_failed n s) = ur_remote_rtp s"
  "ur_remote_rtcp (ur_rtcp_failed n s) = ur_remote_rtcp s"
  by (simp_all add: ur_rtcp_failed_def ur_shutdown_def)

lemma ur_small_steps:
  assumes "ur_inv s"
  shows "ur_inv (ur_posted_error s)" "ur_inv (ur_rtcp_sent e s)" "ur_inv (ur_idle_expired now e owner s)"
    "ur_inv (ur_update_ssrc ssrc s)" "ur_inv (ur_run_ssrc s)" "ur_inv (ur_shutdown s)"
proof -
  show "ur_inv (ur_posted_error s)" "ur_inv (ur_rtcp_sent e s)"
    unfolding ur_posted_error_def ur_rtcp_sent_def
    by (rule ur_failed_inv, use assms in \<open>simp add: ur_inv_def same_host_def\<close>)+
qed (use assms in \<open>auto simp: ur_idle_expired_def ur_update_ssrc_def ur_run_ssrc_def ur_shutdown_def
      set_expected_ssrc_def Let_def ur_inv_def same_host_def split: list.splits\<close>)

lemma ur_small_fields [simp]:
  "ur_local_port (ur_posted_error s) = ur_local_port s" "ur_remote_rtp (ur_posted_error s) = ur_remote_rtp s"
  "ur_remote_rtcp (ur_posted_error s) = ur_remote_rtcp s"
  "ur_local_port (ur_rtcp_sent e s) = ur_local_port s" "ur_remote_rtp (ur_rtcp_sent e s) = ur_remote_rtp s"
  "ur_remote_rtcp (ur_rtcp_sent e s) = ur_remote_rtcp s"
  "ur_local_port (ur_idle_expired now e owner s) = ur_local_port s" "ur_remote_rtp (ur_idle_expired now e owner s) = ur_remote_rtp s"
  "ur_remote_rtcp (ur_idle_expired now e owner s) = ur_remote_rtcp s"
  "ur_local_port (ur_update_ssrc ssrc s) = ur_local_port s" "ur_remote_rtp (ur_update_ssrc ssrc s) = ur_remote_rtp s"
  "ur_remote_rtcp (ur_update_ssrc ssrc s) = ur_remote_rtcp s"
  "ur_local_port (ur_run_ssrc s) = ur_local_port s" "ur_remote_rtp (ur_run_ssrc s) = ur_remote_rtp s"
  "ur_remote_rtcp (ur_run_ssrc s) = ur_remote_rtcp s"
  "ur_local_port (ur_shutdown s) = ur_local_port s" "ur_remote_rtp (ur_shutdown s) = ur_remote_rtp s"
  "ur_remote_rtcp (ur_shutdown s) = ur_remote_rtcp s"
  by (simp_all add: ur_posted_error_def ur_rtcp_sent_def ur_idle_expired_def ur_update_ssrc_def ur_run_ssrc_def ur_shutdown_def
      Let_def split: list.splits)

lemma ur_safe_shutdown_eq:
  assumes "ur_safe_shutdown self live s sessions streams pool = (s', sessions', streams', pool')"
  shows "ur_local_port s' = None" "ur_remote_rtp s' = ur_remote_rtp s" "ur_remote_rtcp s' = ur_remote_rtcp s"
    "ur_waits s' = ur_waits s" "ut_accepted (ur_rtcp s') = ut_accepted (ur_rtcp s)"
    "pool' = (case ur_local_port s of None \<Rightarrow> pool | Some port \<Rightarrow> release port pool)"
    "\<not> ut_open (ur_rtp s')" "\<not> ut_open (ur_rtcp s')"
  using assms by (auto simp: ur_safe_shutdown_def udp_shutdown_def Let_def split: option.splits prod.splits)

lemma pool_acquired:
  assumes "port_pool_inv pool" "acquire pool = (r, pool')"
  shows "port_pool_inv pool'" "set (used_ports pool) \<subseteq> set (used_ports pool')" "r = Some p \<Longrightarrow> p \<in> set (used_ports pool')"
  using assms(2) ports.acquire_ok [OF assms(1)] by (auto simp: acquire_def Let_def split: if_splits)

lemma pool_released:
  assumes "port_pool_inv pool"
  shows "port_pool_inv (release port pool)" "p \<in> set (used_ports pool) \<Longrightarrow> p \<noteq> port \<Longrightarrow> p \<in> set (used_ports (release port pool))"
  using ports.release_ok [OF assms] by (auto simp: release_def)

lemma ur_step_inv:
  assumes "ur_step demux generate x y" "keeps_demuxer demux generate" "ur_inv (fst x)" "pool_holds (fst x) (snd x)"
  shows "ur_inv (fst y) \<and> pool_holds (fst y) (snd y)"
  using assms
proof (cases rule: ur_step.cases)
  case (ur_stopped s self live sessions streams pool s' sessions' streams' pool')
  with assms(3,4) ur_safe_shutdown_eq [OF ur_stopped(4)] show ?thesis
    by (auto simp: ur_inv_def same_host_def pool_holds_def pool_released split: option.splits)
next
  case (ur_pool_acquire s pool)
  with assms(3,4) pool_acquired [of pool "fst (acquire pool)" "snd (acquire pool)"] show ?thesis
    by (auto simp: pool_holds_def)
next
  case (ur_pool_release s port pool)
  with assms(3,4) show ?thesis by (auto simp: pool_holds_def pool_released)
qed (use assms in \<open>auto simp: pool_holds_def ur_on_rtp_inv ur_on_rtcp_inv ur_on_timer_inv ur_small_steps\<close>)

lemma ur_started_inv:
  assumes "port_pool_inv pool"
    and "ur_startup ref w created configured d u os1 os2 sp now pool (new_udp_receiver name pt ssrc d0) = (p, s, pool')"
  shows "ur_inv s \<and> pool_holds s pool'"
proof -
  obtain r pool1 where a: "acquire pool = (r, pool1)" by (rule prod.exhaust)
  obtain e1 t1 where t1: "udp_startup u MediaInput os1 (new_udp_transport :: udp_endpoint udp_transport) = (e1, t1)" by (rule prod.exhaust)
  obtain e2 t2 where t2: "udp_startup u SystemDefault os2 (new_udp_transport :: udp_endpoint udp_transport) = (e2, t2)" by (rule prod.exhaust)
  have acc: "ut_accepted t2 = []" using accepted_startup [OF t2] by (simp add: new_udp_transport_def)
  have acc0: "ut_accepted new_udp_transport = []" by (simp add: new_udp_transport_def)
  have fresh: "ur_media (new_udp_receiver name pt ssrc d0) = (new_rtp_receiver name pt ssrc, d0)"
    "ur_rtp (new_udp_receiver name pt ssrc d0) = new_udp_transport" "ur_rtcp (new_udp_receiver name pt ssrc d0) = new_udp_transport"
    "ur_local_port (new_udp_receiver name pt ssrc d0) = None" "ur_waits (new_udp_receiver name pt ssrc d0) = 0"
    "ur_remote_rtp (new_udp_receiver name pt ssrc d0) = None" "ur_remote_rtcp (new_udp_receiver name pt ssrc d0) = None"
    by (simp_all add: new_udp_receiver_def)
  show ?thesis
    using assms(2) pool_acquired [OF assms(1) a] assms(1)
    unfolding ur_startup_def receiver_startup_def Let_def
    by (cases r; cases e1; cases e2)
      (auto simp: a t1 t2 acc acc0 fresh ur_schedule_rtcp_def ur_inv_def same_host_def pool_holds_def split: if_splits)
qed

lemma ur_run_inv:
  "ur_run demux generate x \<Longrightarrow> keeps_demuxer demux generate \<Longrightarrow> ur_inv (fst x) \<and> pool_holds (fst x) (snd x)"
proof (induction rule: ur_run.induct)
  case (ur_started pool ref w created configured d u os1 os2 sp now name pt ssrc d0 p s pool')
  from ur_started_inv [OF ur_started(1,2)] show ?case by simp
next
  case (ur_next x y)
  with ur_step_inv [OF ur_next(2)] show ?case by blast
qed

text \<open>
  C20: A UDP receiver session is bound to one device and to one port pair. In every order of
  events the RTP address learnt from the first accepted packet, and the RTCP address learnt after
  it, never change again; both belong to one host, and so does every report sent. While the session
  has its port no other acquisition returns it and its demuxer is alive; shutting down gives the
  port back once and closes both sockets.
\<close>

theorem udp_receiver_bound:
  assumes "keeps_demuxer demux generate" "ur_run demux generate (s, pool)" "ur_step demux generate (s, pool) (s', pool')"
  shows "(\<forall>r. ur_remote_rtp s = Some r \<longrightarrow> ur_remote_rtp s' = Some r) \<and>
    (\<forall>t. ur_remote_rtcp s = Some t \<longrightarrow> ur_remote_rtcp s' = Some t \<and> (\<exists>r. ur_remote_rtp s = Some r \<and> fst t = fst r)) \<and>
    (\<forall>x \<in> set (ut_accepted (ur_rtcp s)). \<exists>r. ur_remote_rtp s = Some r \<and> fst (snd x) = fst r) \<and>
    (\<forall>port. ur_local_port s = Some port \<longrightarrow> rr_demuxer (fst (ur_media s)) \<and> fst (acquire pool) \<noteq> Some port \<and>
       (ur_local_port s' = None \<longrightarrow> port \<in> set (available_ports pool') \<and> \<not> ut_open (ur_rtp s') \<and> \<not> ut_open (ur_rtcp s'))) \<and>
    (ur_local_port s = None \<longrightarrow> ur_local_port s' = None)"
proof -
  have inv: "ur_inv s" "pool_holds s pool" using ur_run_inv [OF assms(2,1)] by simp_all
  have held: "fst (acquire pool) \<noteq> Some port" if "ur_local_port s = Some port" for port
    using that inv(2) ports.acquire_exclusive [of pool port "snd (acquire pool)"] unfolding pool_holds_def by (metis prod.collapse)
  have "(\<forall>r. ur_remote_rtp s = Some r \<longrightarrow> ur_remote_rtp s' = Some r) \<and>
      (\<forall>t. ur_remote_rtcp s = Some t \<longrightarrow> ur_remote_rtcp s' = Some t) \<and>
      (ur_local_port s = None \<longrightarrow> ur_local_port s' = None) \<and>
      (\<forall>port. ur_local_port s = Some port \<longrightarrow> ur_local_port s' = None \<longrightarrow>
         port \<in> set (available_ports pool') \<and> \<not> ut_open (ur_rtp s') \<and> \<not> ut_open (ur_rtcp s'))"
    using assms(3)
  proof (cases rule: ur_step.cases)
    case (ur_stopped self live sessions streams sessions' streams')
    from ur_safe_shutdown_eq [OF ur_stopped(2)] inv(2) show ?thesis
      by (auto simp: pool_holds_def release_def split: option.splits)
  qed (use ur_on_rtp_inv(2-4) [OF assms(1) inv(1)] ur_on_rtcp_inv(2-4) [OF assms(1) inv(1)] in simp_all)
  with inv held show ?thesis by (auto simp: ur_inv_def same_host_def)
qed

definition calm :: socket_calls where
  "calm = \<lparr>sc_open = None, sc_set_option = None, sc_non_blocking = None, sc_bind = None, sc_connect = None\<rparr>"

definition quiet_demux :: "rtp_receiver \<times> unit \<Rightarrow> bytes \<Rightarrow> int \<times> rtp_receiver \<times> unit" where
  "quiet_demux m data = (0, m)"

definition short_report :: "rtp_receiver \<times> unit \<Rightarrow> bytes \<times> rtp_receiver \<times> unit" where
  "short_report m = ([9], m)"

lemma sample_accepted:
  assumes "rr_payload_type r = 96" "rr_expected_ssrc r = 0x01020304"
  shows "receive_rtp quiet_demux r m (wire sample_rtp) = (Accepted, m)"
proof -
  define pt where "pt = hd (rx_pt (ps_demuxer 96 ()))"
  have "media_datagram sample_receiver pt (wire sample_rtp) sample_rtp" by (rule sample_media) (simp add: pt_def ps_demuxer_def)
  then have m: "media_datagram r pt (wire sample_rtp) sample_rtp"
    using assms(1) by (simp add: media_datagram_def sample_receiver_def new_rtp_receiver_def)
  have "rtp_ssrc (pkt_rtp sample_rtp) = rr_expected_ssrc r" using assms(2) by (simp add: sample_rtp_def)
  from media_received [OF m this, of quiet_demux] show ?thesis by (simp add: quiet_demux_def)
qed

text \<open>A device at 10.0.0.1 sends, the session reports, another host sends.\<close>

theorem udp_receiver_bound_witness:
  "\<exists>s pool. ur_run quiet_demux short_report (s, pool) \<and> ut_accepted (ur_rtcp s) = [([9], ([10, 0, 0, 1], 5001))] \<and>
     ur_local_port s = Some 49152 \<and> fst (acquire pool) \<noteq> Some 49152 \<and>
     ur_remote_rtp (ur_on_rtp quiet_demux calm 3 False (wire sample_rtp) ([10, 0, 0, 2], 6000) s) = Some ([10, 0, 0, 1], 5000)"
proof -
  have k: "keeps_demuxer quiet_demux short_report" by (simp add: keeps_demuxer_def quiet_demux_def short_report_def)
  define pool where "pool = snd (acquire new_media_port_pool)"
  have acq: "acquire new_media_port_pool = (Some 49152, pool)"
    using new_pool_last new_pool_nonempty by (simp add: pool_def acquire_def Let_def)
  define s0 where "s0 = fst (snd (ur_startup 1 1 True True () False calm calm True 0 new_media_port_pool (new_udp_receiver ''cam'' 96 0x01020304 ())))"
  have start: "ur_startup 1 1 True True () False calm calm True 0 new_media_port_pool (new_udp_receiver ''cam'' 96 0x01020304 ()) = (Some 49152, s0, pool)"
    by (simp add: s0_def ur_startup_def receiver_startup_def acq udp_startup_def calm_def ur_schedule_rtcp_def Let_def)
  have f0: "ur_local_port s0 = Some 49152" "ur_rtp_running s0" "ur_waits s0 = 1" "ur_remote_rtp s0 = None" "ur_remote_rtcp s0 = None"
    "rr_payload_type (fst (ur_media s0)) = 96" "rr_expected_ssrc (fst (ur_media s0)) = 0x01020304"
    "ut_open (ur_rtp s0)" "ut_open (ur_rtcp s0)" "ut_write_queue (ur_rtcp s0) = []" "ut_accepted (ur_rtcp s0) = []"
    by (simp_all add: s0_def ur_startup_def receiver_startup_def acq udp_startup_def calm_def ur_schedule_rtcp_def
        new_udp_receiver_def new_udp_transport_def new_rtp_receiver_def set_error_callback_def Let_def)
  define s1 where "s1 = ur_on_rtp quiet_demux calm 1 False (wire sample_rtp) ([10, 0, 0, 1], 5000) s0"
  have s1: "s1 = s0\<lparr>ur_idle := idle_touch 1 (ur_idle s0), ur_remote_rtp := Some ([10, 0, 0, 1], 5000)\<rparr>"
    using f0 by (simp add: s1_def ur_on_rtp_def sample_accepted udp_connect_def calm_def Let_def)
  define s2 where "s2 = ur_on_timer short_report Sent False s1"
  have f2: "ut_accepted (ur_rtcp s2) = [([9], ([10, 0, 0, 1], 5001))]" "ur_local_port s2 = Some 49152"
    "ur_remote_rtp s2 = Some ([10, 0, 0, 1], 5000)" "ur_rtp_running s2"
    using f0 by (simp_all add: s2_def s1 ur_on_timer_def rtcp_target_def short_report_def ur_schedule_rtcp_def udp_write_def Let_def)
  have "ur_run quiet_demux short_report (s0, pool)" by (rule ur_started [OF new_media_port_pool_inv start])
  from ur_next [OF this ur_rtp_read [OF f0(2), of quiet_demux short_report pool calm 1 False "wire sample_rtp" "([10, 0, 0, 1], 5000)"]]
  have "ur_run quiet_demux short_report (s1, pool)" by (simp only: s1_def)
  moreover have "0 < ur_waits s1" by (simp add: s1 f0)
  ultimately have run: "ur_run quiet_demux short_report (s2, pool)"
    unfolding s2_def by (intro ur_next [OF _ ur_timer])
  from udp_receiver_bound [OF k run ur_rtp_read [OF f2(4), of quiet_demux short_report pool calm 3 False "wire sample_rtp" "([10, 0, 0, 2], 6000)"]]
  show ?thesis using run f2 by (intro exI [of _ s2] exI [of _ pool]) simp
qed

end
