(* ===== verification/Gb28181_Udp_Sender.thy ===== *)
theory Gb28181_Udp_Sender
  imports Gb28181_Sender Gb28181_Udp_Receiver
begin

text \<open>
  \<open>media/gb28181/gb28181_udp_sender_session.cpp\<close>: the RTP packets of a sender leave through a UDP
  transport, with RTCP sender reports when the other side named an RTCP port.

  The session is composed of the sender of \<open>Gb28181_Sender\<close>, two UDP transports and a port of the
  pool. The RTCP context of \<open>rtp_create\<close> is a value of type \<open>'c\<close>; \<open>onsend\<close> and \<open>report\<close> stand for
  \<open>rtp_onsend\<close> and \<open>rtp_rtcp_report\<close>. \<open>us_waits\<close> counts the timer handlers still to run and
  \<open>us_posted\<close> the posted shutdowns; \<open>us_dropped\<close> is the sender object the session let go.
\<close>

record 'c udp_sender_session =
  us_stream :: "string option"
  us_sender_id :: string
  us_remote_rtp :: udp_endpoint
  us_remote_rtcp :: "udp_endpoint option"
  us_rtp :: "udp_endpoint udp_transport"
  us_rtcp :: "udp_endpoint udp_transport"
  us_waits :: nat
  us_local_port :: "u16 option"
  us_sender :: "rtp_sender option"
  us_rtcp_sender :: "'c option"
  us_rtcp_reporting_started :: bool
  us_subscription :: bool
  us_rtcp_running :: bool
  us_posted :: nat
  us_dropped :: "rtp_sender option"

definition new_udp_sender :: "string \<Rightarrow> string \<Rightarrow> udp_endpoint \<Rightarrow> udp_endpoint option \<Rightarrow> 'c udp_sender_session" where
  "new_udp_sender stream sender_id rtp rtcp =
     \<lparr>us_stream = Some stream, us_sender_id = sender_id, us_remote_rtp = rtp, us_remote_rtcp = rtcp, us_rtp = new_udp_transport,
      us_rtcp = new_udp_transport, us_waits = 0, us_local_port = None, us_sender = None, us_rtcp_sender = None,
      us_rtcp_reporting_started = False, us_subscription = False, us_rtcp_running = False, us_posted = 0, us_dropped = None\<rparr>"

definition us_shutdown :: "'c udp_sender_session \<Rightarrow> 'c udp_sender_session" where
  "us_shutdown s = s\<lparr>us_posted := us_posted s + 1\<rparr>"

text \<open>The tail of \<open>startup\<close>, after the ports are open and the worker took the subscription.\<close>

definition us_start_sender ::
  "'c option \<Rightarrow> (rtp_sender \<Rightarrow> bool \<times> rtp_sender) \<Rightarrow> bool \<Rightarrow> 'c udp_sender_session \<Rightarrow> bool \<times> 'c udp_sender_session" where
  "us_start_sender context start spawned s =
     (let s1 = (if us_remote_rtcp s \<noteq> None then s\<lparr>us_rtcp_sender := context\<rparr> else s)
      in if us_remote_rtcp s \<noteq> None \<and> context = None then (False, s1)
         else
           let s2 = s1\<lparr>us_rtp := set_error_callback (us_rtp s1), us_rtcp := set_error_callback (us_rtcp s1)\<rparr>
           in case start new_rtp_sender of
                (ok, sender) \<Rightarrow>
                  let s3 = s2\<lparr>us_sender := Some sender\<rparr>
                  in if \<not> ok then (False, s3) else (True, s3\<lparr>us_rtcp_running := spawned\<rparr>))"

definition us_startup ::
  "bool \<Rightarrow> socket_calls \<Rightarrow> socket_calls \<Rightarrow> bool \<Rightarrow> 'c option \<Rightarrow> (rtp_sender \<Rightarrow> bool \<times> rtp_sender) \<Rightarrow> bool \<Rightarrow>
   media_port_pool \<Rightarrow> 'c udp_sender_session \<Rightarrow> bool \<times> 'c udp_sender_session \<times> media_port_pool" where
  "us_startup unspecified os_rtp os_rtcp subscribed context start spawned pool s =
     (case acquire pool of
        (None, pool') \<Rightarrow> (False, s\<lparr>us_local_port := None\<rparr>, pool')
      | (Some port, pool') \<Rightarrow>
          let s1 = s\<lparr>us_local_port := Some port\<rparr>
          in case udp_startup unspecified SystemDefault os_rtp (us_rtp s1) of
               (e1, t1) \<Rightarrow>
                 let s2 = s1\<lparr>us_rtp := t1\<rparr>
                 in if e1 \<noteq> None then (False, s2, pool')
                    else case udp_startup unspecified SystemDefault os_rtcp (us_rtcp s2) of
                      (e2, t2) \<Rightarrow>
                        let s3 = s2\<lparr>us_rtcp := t2\<rparr>
                        in if e2 \<noteq> None then (False, s3, pool')
                           else
                             let s4 = s3\<lparr>us_subscription := subscribed\<rparr>
                             in if \<not> subscribed then (False, s4, pool')
                                else (case us_start_sender context start spawned s4 of (ok, s5) \<Rightarrow> (ok, s5, pool')))"

text \<open>\<open>run_rtcp\<close> after a read: what arrives is ignored.\<close>

definition us_on_rtcp :: "bool \<Rightarrow> 'c udp_sender_session \<Rightarrow> 'c udp_sender_session" where
  "us_on_rtcp error s =
     (if us_stream s = None then s\<lparr>us_rtcp_running := False\<rparr>
      else if error then us_shutdown (s\<lparr>us_rtcp_running := False\<rparr>)
      else s)"

definition us_schedule_rtcp :: "'c udp_sender_session \<Rightarrow> 'c udp_sender_session" where
  "us_schedule_rtcp s = s\<lparr>us_waits := us_waits s + 1\<rparr>"

text \<open>The handler of \<open>schedule_rtcp\<close>; \<open>report\<close> gives the result and the bytes of the buffer.\<close>

definition us_on_timer ::
  "('c \<Rightarrow> int \<times> bytes \<times> 'c) \<Rightarrow> send_result \<Rightarrow> bool \<Rightarrow> 'c udp_sender_session \<Rightarrow> 'c udp_sender_session" where
  "us_on_timer report sent error s0 =
     (let s = s0\<lparr>us_waits := us_waits s0 - 1\<rparr>
      in if error \<or> us_stream s = None then s
         else case report (the (us_rtcp_sender s)) of
           (bytes, buffer, c) \<Rightarrow>
             let s1 = s\<lparr>us_rtcp_sender := Some c\<rparr>
             in us_schedule_rtcp
                  (if bytes > 0 \<and> bytes \<le> 1500
                   then s1\<lparr>us_rtcp := snd (udp_write sent (take (nat bytes) buffer) (the (us_remote_rtcp s1)) (us_rtcp s1))\<rparr>
                   else s1))"

definition us_send_packet ::
  "('c \<Rightarrow> bytes \<Rightarrow> int \<times> 'c) \<Rightarrow> send_result \<Rightarrow> bytes \<Rightarrow> 'c udp_sender_session \<Rightarrow> 'c udp_sender_session" where
  "us_send_packet onsend sent packet s =
     (if us_stream s = None then s
      else case udp_write sent packet (us_remote_rtp s) (us_rtp s) of
        (queued, t) \<Rightarrow>
          let s1 = s\<lparr>us_rtp := t\<rparr>
          in if \<not> queued then s1
             else if us_remote_rtcp s1 = None then s1
             else case onsend (the (us_rtcp_sender s1)) packet of
               (r, c) \<Rightarrow>
                 let s2 = s1\<lparr>us_rtcp_sender := Some c\<rparr>
                 in if r \<noteq> 0 then us_shutdown s2
                    else if \<not> us_rtcp_reporting_started s2
                    then us_schedule_rtcp (s2\<lparr>us_rtcp_reporting_started := True\<rparr>)
                    else s2)"

text \<open>
  A frame reaches the sender, which hands each packet to \<open>send_packet\<close> and may call the end handler,
  that is \<open>shutdown\<close>; \<open>sent i\<close> answers for the \<open>i\<close>-th packet of the frame.
\<close>

definition us_frame ::
  "('c \<Rightarrow> bytes \<Rightarrow> int \<times> 'c) \<Rightarrow> (nat \<Rightarrow> send_result) \<Rightarrow> mpeg_ps_frame \<Rightarrow> 'c udp_sender_session \<Rightarrow> 'c udp_sender_session option" where
  "us_frame onsend sent frame s =
     (case us_sender s of
        None \<Rightarrow> Some s
      | Some sender \<Rightarrow>
          (case on_ps_frame frame sender of
             None \<Rightarrow> None
           | Some sender' \<Rightarrow>
               let packets = drop (length (rs_packets sender)) (rs_packets sender');
                   s1 = fold (\<lambda>(i, p). us_send_packet onsend (sent i) p) (enumerate 0 packets) (s\<lparr>us_sender := Some sender'\<rparr>)
               in Some (if rs_ends sender' \<noteq> rs_ends sender then us_shutdown s1 else s1)))"

text \<open>The stream ends: the sender calls its end handler.\<close>

definition us_stream_end :: "'c udp_sender_session \<Rightarrow> 'c udp_sender_session" where
  "us_stream_end s =
     (case us_sender s of
        None \<Rightarrow> s
      | Some sender \<Rightarrow>
          let s1 = s\<lparr>us_sender := Some (sender_on_end sender)\<rparr>
          in if rs_ends (sender_on_end sender) \<noteq> rs_ends sender then us_shutdown s1 else s1)"

text \<open>The error callback of both transports.\<close>

definition us_failed :: "'c udp_sender_session \<Rightarrow> 'c udp_sender_session" where
  "us_failed s = (if us_stream s \<noteq> None then us_shutdown s else s)"

definition us_safe_shutdown ::
  "session_ref \<Rightarrow> 'c udp_sender_session \<Rightarrow> session_registry \<Rightarrow> media_port_pool \<Rightarrow>
   'c udp_sender_session \<times> session_registry \<times> media_port_pool" where
  "us_safe_shutdown self s0 sessions pool =
     (let s = s0\<lparr>us_posted := us_posted s0 - 1\<rparr>
      in case us_stream s of
           None \<Rightarrow> (s, sessions, pool)
         | Some stream \<Rightarrow>
             let sessions' = remove_sender_session stream (us_sender_id s) self sessions;
                 s1 = s\<lparr>us_stream := None, us_subscription := False, us_dropped := map_option sender_shutdown (us_sender s),
                        us_sender := None, us_rtp := udp_shutdown (us_rtp s), us_rtcp := udp_shutdown (us_rtcp s)\<rparr>
             in case us_local_port s1 of
                  None \<Rightarrow> (s1\<lparr>us_rtcp_sender := None\<rparr>, sessions', pool)
                | Some port \<Rightarrow> (s1\<lparr>us_local_port := None, us_rtcp_sender := None\<rparr>, sessions', release port pool))"

section \<open>Every history of a session, among the other users of the pool\<close>

inductive us_step ::
  "('c \<Rightarrow> bytes \<Rightarrow> int \<times> 'c) \<Rightarrow> ('c \<Rightarrow> int \<times> bytes \<times> 'c) \<Rightarrow>
   'c udp_sender_session \<times> media_port_pool \<Rightarrow> 'c udp_sender_session \<times> media_port_pool \<Rightarrow> bool"
  for onsend report where
  us_step_frame: "us_frame onsend sent frame s = Some s' \<Longrightarrow> us_step onsend report (s, pool) (s', pool)"
| us_step_end: "us_step onsend report (s, pool) (us_stream_end s, pool)"
| us_step_timer: "0 < us_waits s \<Longrightarrow> us_step onsend report (s, pool) (us_on_timer report sent1 e s, pool)"
| us_step_rtcp: "us_rtcp_running s \<Longrightarrow> us_step onsend report (s, pool) (us_on_rtcp e s, pool)"
| us_step_error: "us_step onsend report (s, pool) (us_failed s, pool)"
| us_step_rtp_sent: "us_step onsend report (s, pool) (s\<lparr>us_rtp := udp_complete e (us_rtp s)\<rparr>, pool)"
| us_step_rtcp_sent: "us_step onsend report (s, pool) (s\<lparr>us_rtcp := udp_complete e (us_rtcp s)\<rparr>, pool)"
| us_step_stop: "us_step onsend report (s, pool) (us_shutdown s, pool)"
| us_step_stopped: "0 < us_posted s \<Longrightarrow> us_safe_shutdown self s sessions pool = (s', sessions', pool') \<Longrightarrow>
     us_step onsend report (s, pool) (s', pool')"
| us_step_acquire: "us_step onsend report (s, pool) (s, snd (acquire pool))"
| us_step_release: "us_local_port s \<noteq> Some port \<Longrightarrow> us_step onsend report (s, pool) (s, release port pool)"

inductive us_run ::
  "('c \<Rightarrow> bytes \<Rightarrow> int \<times> 'c) \<Rightarrow> ('c \<Rightarrow> int \<times> bytes \<times> 'c) \<Rightarrow> 'c udp_sender_session \<times> media_port_pool \<Rightarrow> bool"
  for onsend report where
  us_run_start: "port_pool_inv pool \<Longrightarrow>
     us_startup u os1 os2 sb context start sp pool (new_udp_sender stream sender_id rtp rtcp) = (ok, s, pool') \<Longrightarrow>
     us_run onsend report (s, pool')"
| us_run_step: "us_run onsend report x \<Longrightarrow> us_step onsend report x y \<Longrightarrow> us_run onsend report y"

text \<open>
  A running session with an RTCP address has its RTCP context, and a timer only then; datagrams go
  to the addresses of the session.
\<close>

definition us_inv :: "'c udp_sender_session \<Rightarrow> bool" where
  "us_inv s \<longleftrightarrow>
     (us_stream s \<noteq> None \<and> us_sender s \<noteq> None \<and> us_remote_rtcp s \<noteq> None \<longrightarrow> us_rtcp_sender s \<noteq> None) \<and>
     us_waits s \<le> of_bool (us_rtcp_reporting_started s) \<and>
     (us_stream s \<noteq> None \<and> us_rtcp_reporting_started s \<longrightarrow> us_remote_rtcp s \<noteq> None \<and> us_sender s \<noteq> None) \<and>
     (us_stream s = None \<longrightarrow> us_local_port s = None \<and> \<not> ut_open (us_rtp s) \<and> \<not> ut_open (us_rtcp s)) \<and>
     (\<forall>x \<in> set (ut_accepted (us_rtp s)). snd x = us_remote_rtp s) \<and>
     (\<forall>x \<in> set (ut_accepted (us_rtcp s)). Some (snd x) = us_remote_rtcp s)"

definition us_pool :: "'c udp_sender_session \<Rightarrow> media_port_pool \<Rightarrow> bool" where
  "us_pool s pool \<longleftrightarrow> port_pool_inv pool \<and> (\<forall>p. us_local_port s = Some p \<longrightarrow> p \<in> set (used_ports pool))"

lemma udp_write_snd_open [simp]: "ut_open (snd (udp_write r d e t)) = ut_open t"
  by (simp add: udp_write_def enqueue_datagram_def start_write_def Let_def)

lemma udp_complete_open [simp]: "ut_open (udp_complete e t) = ut_open t"
  by (simp add: udp_complete_def udp_on_write_def start_write_def Let_def split: list.splits)

lemma us_send_packet_inv:
  assumes "us_inv s" "us_sender s \<noteq> None"
  shows "us_inv (us_send_packet onsend sent packet s)" "us_sender (us_send_packet onsend sent packet s) = us_sender s"
    "us_local_port (us_send_packet onsend sent packet s) = us_local_port s"
    "us_stream (us_send_packet onsend sent packet s) = us_stream s"
    "us_remote_rtp (us_send_packet onsend sent packet s) = us_remote_rtp s"
    "us_remote_rtcp (us_send_packet onsend sent packet s) = us_remote_rtcp s"
proof -
  obtain b t where w: "udp_write sent packet (us_remote_rtp s) (us_rtp s) = (b, t)" by (rule prod.exhaust)
  obtain r c where o: "onsend (the (us_rtcp_sender s)) packet = (r, c)" by (rule prod.exhaust)
  have acc: "set (ut_accepted t) \<subseteq> insert (packet, us_remote_rtp s) (set (ut_accepted (us_rtp s)))" "ut_open t = ut_open (us_rtp s)"
    using accepted_write [of sent packet "us_remote_rtp s" "us_rtp s"] udp_write_snd_open [of sent packet "us_remote_rtp s" "us_rtp s"] w
    by simp_all
  show "us_inv (us_send_packet onsend sent packet s)"
    using assms acc unfolding us_send_packet_def Let_def
    by (auto simp: w o us_inv_def us_shutdown_def us_schedule_rtcp_def)
  show "us_sender (us_send_packet onsend sent packet s) = us_sender s"
    "us_local_port (us_send_packet onsend sent packet s) = us_local_port s"
    "us_stream (us_send_packet onsend sent packet s) = us_stream s"
    "us_remote_rtp (us_send_packet onsend sent packet s) = us_remote_rtp s"
    "us_remote_rtcp (us_send_packet onsend sent packet s) = us_remote_rtcp s"
    unfolding us_send_packet_def Let_def by (auto simp: w o us_shutdown_def us_schedule_rtcp_def)
qed

lemma us_send_packets_inv:
  assumes "us_inv s" "us_sender s \<noteq> None"
  shows "us_inv (fold (\<lambda>(i, p). us_send_packet onsend (sent i) p) xs s) \<and>
    us_local_port (fold (\<lambda>(i, p). us_send_packet onsend (sent i) p) xs s) = us_local_port s \<and>
    us_stream (fold (\<lambda>(i, p). us_send_packet onsend (sent i) p) xs s) = us_stream s \<and>
    us_remote_rtp (fold (\<lambda>(i, p). us_send_packet onsend (sent i) p) xs s) = us_remote_rtp s \<and>
    us_remote_rtcp (fold (\<lambda>(i, p). us_send_packet onsend (sent i) p) xs s) = us_remote_rtcp s"
  using assms
proof (induction xs arbitrary: s)
  case (Cons x xs)
  obtain i p where x: "x = (i, p)" by (rule prod.exhaust)
  note step = us_send_packet_inv [OF Cons.prems, of onsend "sent i" p]
  from Cons.IH [OF step(1)] step(2-6) Cons.prems(2) show ?case by (simp add: x)
qed simp

lemma us_frame_inv:
  assumes "us_inv s" "us_frame onsend sent frame s = Some s'"
  shows "us_inv s'" "us_local_port s' = us_local_port s" "us_stream s' = us_stream s" "us_remote_rtp s' = us_remote_rtp s"
    "us_remote_rtcp s' = us_remote_rtcp s"
proof -
  have "us_inv s' \<and> us_local_port s' = us_local_port s \<and> us_stream s' = us_stream s \<and> us_remote_rtp s' = us_remote_rtp s \<and>
      us_remote_rtcp s' = us_remote_rtcp s"
  proof (cases "us_sender s")
    case None
    with assms show ?thesis by (simp add: us_frame_def)
  next
    case (Some sender)
    then obtain sender' where s': "on_ps_frame frame sender = Some sender'"
      using assms(2) by (auto simp: us_frame_def split: option.splits)
    define s1 where "s1 = fold (\<lambda>(i, p). us_send_packet onsend (sent i) p)
      (enumerate 0 (drop (length (rs_packets sender)) (rs_packets sender'))) (s\<lparr>us_sender := Some sender'\<rparr>)"
    have "us_inv (s\<lparr>us_sender := Some sender'\<rparr>)" using assms(1) Some by (simp add: us_inv_def)
    from us_send_packets_inv [OF this, of onsend sent "enumerate 0 (drop (length (rs_packets sender)) (rs_packets sender'))", folded s1_def]
    have "us_inv s1" "us_local_port s1 = us_local_port s" "us_stream s1 = us_stream s"
      "us_remote_rtp s1 = us_remote_rtp s" "us_remote_rtcp s1 = us_remote_rtcp s" by simp_all
    moreover have "s' = (if rs_ends sender' \<noteq> rs_ends sender then us_shutdown s1 else s1)"
      using assms(2) Some s' by (auto simp: us_frame_def s1_def Let_def)
    ultimately show ?thesis by (simp add: us_shutdown_def us_inv_def)
  qed
  then show "us_inv s'" "us_local_port s' = us_local_port s" "us_stream s' = us_stream s" "us_remote_rtp s' = us_remote_rtp s"
    "us_remote_rtcp s' = us_remote_rtcp s" by simp_all
qed

lemma us_on_timer_inv:
  assumes "us_inv s" "0 < us_waits s"
  shows "us_inv (us_on_timer report sent e s)" "us_local_port (us_on_timer report sent e s) = us_local_port s"
proof -
  obtain n b c where r: "report (the (us_rtcp_sender s)) = (n, b, c)" by (metis prod.exhaust)
  have "us_waits s \<le> of_bool (us_rtcp_reporting_started s)" using assms(1) by (simp add: us_inv_def)
  with assms(2) have started: "us_rtcp_reporting_started s" "us_waits s = 1" by (cases "us_rtcp_reporting_started s"; simp)+
  show "us_local_port (us_on_timer report sent e s) = us_local_port s"
    unfolding us_on_timer_def Let_def by (auto simp: r us_schedule_rtcp_def)
  show "us_inv (us_on_timer report sent e s)"
  proof (cases "e \<or> us_stream s = None")
    case True
    with assms started show ?thesis by (auto simp: us_on_timer_def us_inv_def Let_def)
  next
    case False
    then obtain st where st: "us_stream s = Some st" by auto
    with assms(1) started obtain target where "us_remote_rtcp s = Some target" "us_sender s \<noteq> None" by (auto simp: us_inv_def)
    define t where "t = snd (udp_write sent (take (nat n) b) target (us_rtcp s))"
    have old: "\<forall>x \<in> set (ut_accepted (us_rtcp s)). snd x = target"
      using assms(1) \<open>us_remote_rtcp s = Some target\<close> by (simp add: us_inv_def)
    have new: "\<forall>x \<in> set (ut_accepted t). snd x = target" "ut_open t = ut_open (us_rtcp s)"
      using accepted_write [of sent "take (nat n) b" target "us_rtcp s"] old by (auto simp: t_def)
    have eq: "us_on_timer report sent e s = us_schedule_rtcp (if n > 0 \<and> n \<le> 1500
        then s\<lparr>us_waits := 0, us_rtcp_sender := Some c, us_rtcp := t\<rparr> else s\<lparr>us_waits := 0, us_rtcp_sender := Some c\<rparr>)"
      using False started \<open>us_remote_rtcp s = Some target\<close> by (auto simp: us_on_timer_def r t_def Let_def)
    have rtp: "\<forall>x \<in> set (ut_accepted (us_rtp s)). snd x = us_remote_rtp s" using assms(1) by (simp add: us_inv_def)
    have kept: "us_inv (s\<lparr>us_rtcp_sender := Some c, us_rtcp := u, us_waits := 1\<rparr>)"
      if "\<forall>x \<in> set (ut_accepted u). snd x = target" for u
      using that st rtp started(1) \<open>us_remote_rtcp s = Some target\<close> \<open>us_sender s \<noteq> None\<close> unfolding us_inv_def by simp
    show ?thesis
      using kept [OF new(1)] kept [OF old] unfolding eq us_schedule_rtcp_def by (simp split: if_split)
  qed
qed

lemma us_safe_shutdown_eq:
  assumes "us_inv s" "us_safe_shutdown self s sessions pool = (s', sessions', pool')"
  shows "us_inv s'" "us_local_port s' = None" "\<not> ut_open (us_rtp s')" "\<not> ut_open (us_rtcp s')"
    "pool' = (case us_local_port s of None \<Rightarrow> pool | Some port \<Rightarrow> release port pool)"
proof -
  have rtp: "\<forall>x \<in> set (ut_accepted (us_rtp s)). snd x = us_remote_rtp s"
    and rtcp: "\<forall>x \<in> set (ut_accepted (us_rtcp s)). Some (snd x) = us_remote_rtcp s"
    and waits: "us_waits s \<le> of_bool (us_rtcp_reporting_started s)"
    and gone: "us_stream s = None \<Longrightarrow> us_local_port s = None \<and> \<not> ut_open (us_rtp s) \<and> \<not> ut_open (us_rtcp s)"
    using assms(1) by (simp_all add: us_inv_def)
  have down: "ut_accepted (udp_shutdown t) = ut_accepted t" "\<not> ut_open (udp_shutdown t)" for t :: "udp_endpoint udp_transport"
    by (simp_all add: udp_shutdown_def Let_def)
  show "us_local_port s' = None" "\<not> ut_open (us_rtp s')" "\<not> ut_open (us_rtcp s')"
    "pool' = (case us_local_port s of None \<Rightarrow> pool | Some port \<Rightarrow> release port pool)"
    using assms(2) gone unfolding us_safe_shutdown_def Let_def
    by (cases "us_stream s"; cases "us_local_port s"; auto simp: down)+
  show "us_inv s'"
  proof (cases "us_stream s")
    case None
    with assms(2) have "s' = s\<lparr>us_posted := us_posted s - 1\<rparr>" by (simp add: us_safe_shutdown_def)
    then show ?thesis using rtp rtcp waits gone None by (simp add: us_inv_def)
  next
    case (Some st)
    have fields: "us_stream s' = None" "us_local_port s' = None" "us_rtp s' = udp_shutdown (us_rtp s)" "us_rtcp s' = udp_shutdown (us_rtcp s)"
      "us_waits s' = us_waits s" "us_rtcp_reporting_started s' = us_rtcp_reporting_started s" "us_remote_rtp s' = us_remote_rtp s"
      "us_remote_rtcp s' = us_remote_rtcp s"
      using assms(2) Some unfolding us_safe_shutdown_def Let_def by (cases "us_local_port s"; auto)+
    show ?thesis using rtp rtcp waits by (simp add: us_inv_def fields down)
  qed
qed

lemma us_small_steps:
  assumes "us_inv s"
  shows "us_inv (us_stream_end s)" "us_inv (us_on_rtcp e s)" "us_inv (us_failed s)" "us_inv (us_shutdown s)"
    "us_inv (s\<lparr>us_rtp := udp_complete e (us_rtp s)\<rparr>)" "us_inv (s\<lparr>us_rtcp := udp_complete e (us_rtcp s)\<rparr>)"
  using assms
  by (auto simp: us_stream_end_def us_on_rtcp_def us_failed_def us_shutdown_def us_inv_def Let_def split: option.splits)

lemma us_small_ports [simp]:
  "us_local_port (us_stream_end s) = us_local_port s" "us_local_port (us_on_rtcp e s) = us_local_port s"
  "us_local_port (us_failed s) = us_local_port s" "us_local_port (us_shutdown s) = us_local_port s"
  by (simp_all add: us_stream_end_def us_on_rtcp_def us_failed_def us_shutdown_def Let_def split: option.splits)

lemma us_step_inv:
  assumes "us_step onsend report x y" "us_inv (fst x)" "us_pool (fst x) (snd x)"
  shows "us_inv (fst y) \<and> us_pool (fst y) (snd y)"
  using assms
proof (cases rule: us_step.cases)
  case (us_step_frame sent frame s s' pool)
  with assms(2,3) us_frame_inv [of s onsend sent frame s'] show ?thesis by (simp add: us_pool_def)
next
  case (us_step_stopped s self sessions pool s' sessions' pool')
  with assms(2,3) us_safe_shutdown_eq [of s self sessions pool s' sessions' pool'] show ?thesis
    by (auto simp: us_pool_def pool_released split: option.splits)
next
  case (us_step_acquire s pool)
  with assms(2,3) pool_acquired [of pool "fst (acquire pool)" "snd (acquire pool)"] show ?thesis by (auto simp: us_pool_def)
next
  case (us_step_release s port pool)
  with assms(2,3) show ?thesis by (auto simp: us_pool_def pool_released)
qed (use assms in \<open>auto simp: us_pool_def us_on_timer_inv us_small_steps\<close>)

text \<open>Starting: the ports, then the sender.\<close>

lemma us_start_sender_eq:
  assumes "us_start_sender context start spawned s = (ok, s')"
  shows "us_local_port s' = us_local_port s" "us_stream s' = us_stream s" "us_remote_rtp s' = us_remote_rtp s"
    "us_remote_rtcp s' = us_remote_rtcp s" "us_waits s' = us_waits s" "us_rtcp_reporting_started s' = us_rtcp_reporting_started s"
    "ut_accepted (us_rtp s') = ut_accepted (us_rtp s)" "ut_accepted (us_rtcp s') = ut_accepted (us_rtcp s)"
    "ut_wire (us_rtp s') = ut_wire (us_rtp s)" "ut_write_queue (us_rtp s') = ut_write_queue (us_rtp s)"
    "ut_open (us_rtp s') = ut_open (us_rtp s)"
    "us_sender s \<noteq> us_sender s' \<Longrightarrow> us_remote_rtcp s \<noteq> None \<Longrightarrow> us_rtcp_sender s' \<noteq> None"
    "ok \<Longrightarrow> start new_rtp_sender = (True, the (us_sender s')) \<and> us_sender s' \<noteq> None"
  using assms
  by (auto simp: us_start_sender_def set_error_callback_def Let_def split: if_splits prod.splits)

lemma us_startup_eq:
  assumes "us_startup u os1 os2 sb context start sp pool (new_udp_sender stream sender_id rtp rtcp) = (ok, s, pool')"
    and "port_pool_inv pool"
  shows "us_inv s" "us_pool s pool'" "us_remote_rtp s = rtp" "us_stream s = Some stream"
    "ok \<Longrightarrow> start new_rtp_sender = (True, the (us_sender s)) \<and> us_sender s \<noteq> None \<and> ut_open (us_rtp s) \<and>
       ut_write_queue (us_rtp s) = [] \<and> ut_wire (us_rtp s) = []"
proof -
  define n where "n = (new_udp_sender stream sender_id rtp rtcp :: 'a udp_sender_session)"
  have new: "us_stream n = Some stream" "us_remote_rtp n = rtp" "us_remote_rtcp n = rtcp" "us_rtp n = new_udp_transport"
    "us_rtcp n = new_udp_transport" "us_waits n = 0" "us_local_port n = None" "us_sender n = None" "us_rtcp_sender n = None"
    "\<not> us_rtcp_reporting_started n" by (simp_all add: n_def new_udp_sender_def)
  have t0: "ut_accepted new_udp_transport = []" "ut_wire new_udp_transport = []" "ut_write_queue new_udp_transport = []"
    by (simp_all add: new_udp_transport_def)
  obtain r pool1 where a: "acquire pool = (r, pool1)" by (rule prod.exhaust)
  note pool = pool_acquired [OF assms(2) a]
  obtain e1 t1 where t1: "udp_startup u SystemDefault os1 (new_udp_transport :: udp_endpoint udp_transport) = (e1, t1)" by (rule prod.exhaust)
  obtain e2 t2 where t2: "udp_startup u SystemDefault os2 (new_udp_transport :: udp_endpoint udp_transport) = (e2, t2)" by (rule prod.exhaust)
  have f1: "ut_accepted t1 = []" "ut_wire t1 = []" "ut_write_queue t1 = []" "e1 = None \<Longrightarrow> ut_open t1"
    using t1 by (auto simp: udp_startup_def new_udp_transport_def Let_def split: if_splits)
  have f2: "ut_accepted t2 = []" using t2 by (auto simp: udp_startup_def new_udp_transport_def Let_def split: if_splits)
  have fresh: "us_inv x" if "us_stream x = Some stream" "us_waits x = 0" "\<not> us_rtcp_reporting_started x"
      "ut_accepted (us_rtp x) = []" "ut_accepted (us_rtcp x) = []"
      "us_sender x \<noteq> None \<Longrightarrow> us_remote_rtcp x \<noteq> None \<Longrightarrow> us_rtcp_sender x \<noteq> None" for x :: "'a udp_sender_session"
    using that by (simp add: us_inv_def)
  have start: "us_startup u os1 os2 sb context start sp pool n = (ok, s, pool')" using assms(1) by (simp add: n_def)
  have "us_inv s \<and> us_pool s pool' \<and> us_remote_rtp s = rtp \<and> us_stream s = Some stream \<and>
    (ok \<longrightarrow> start new_rtp_sender = (True, the (us_sender s)) \<and> us_sender s \<noteq> None \<and> ut_open (us_rtp s) \<and>
       ut_write_queue (us_rtp s) = [] \<and> ut_wire (us_rtp s) = [])"
  proof (cases r)
    case None
    with start have "ok = False" "s = n\<lparr>us_local_port := None\<rparr>" "pool' = pool1" by (simp_all add: us_startup_def a)
    moreover have "us_inv (n\<lparr>us_local_port := None\<rparr>)" by (intro fresh) (simp_all add: new t0)
    ultimately show ?thesis using pool by (simp add: us_pool_def new)
  next
    case (Some p)
    define s4 where "s4 = n\<lparr>us_local_port := Some p, us_rtp := t1, us_rtcp := t2, us_subscription := sb\<rparr>"
    have p': "pool' = pool1" using start Some unfolding us_startup_def Let_def by (auto simp: a split: prod.splits if_splits)
    have used: "us_pool x pool'" if "us_local_port x = Some p" for x :: "'a udp_sender_session"
      using pool Some that by (simp add: us_pool_def p')
    show ?thesis
    proof (cases "e1 = None \<and> e2 = None \<and> sb")
      case True
      then have "us_start_sender context start sp s4 = (ok, s)"
        using start Some unfolding us_startup_def Let_def by (simp add: a new t1 t2 s4_def split: prod.splits)
      note eq = us_start_sender_eq [OF this]
      have s4: "us_stream s4 = Some stream" "us_remote_rtp s4 = rtp" "us_waits s4 = 0" "us_local_port s4 = Some p" "us_sender s4 = None"
        "\<not> us_rtcp_reporting_started s4" "us_rtp s4 = t1" "us_rtcp s4 = t2" by (simp_all add: s4_def new)
      have s: "us_local_port s = Some p" "us_stream s = Some stream" "us_remote_rtp s = rtp" "us_waits s = 0"
        "\<not> us_rtcp_reporting_started s" "ut_accepted (us_rtp s) = []" "ut_accepted (us_rtcp s) = []" "ut_open (us_rtp s)"
        "ut_write_queue (us_rtp s) = []" "ut_wire (us_rtp s) = []"
        using True by (simp_all add: eq(1-11) s4 f1 f2)
      have "us_rtcp_sender s \<noteq> None" if "us_sender s \<noteq> None" "us_remote_rtcp s \<noteq> None"
        using eq(12) that by (simp add: eq(4) s4(5))
      then have "us_inv s" by (intro fresh s)
      with used [OF s(1)] eq(13) s show ?thesis by (intro conjI impI) blast+
    next
      case False
      have "(ok, s, pool') = (False, if e1 \<noteq> None then n\<lparr>us_local_port := Some p, us_rtp := t1\<rparr>
          else if e2 \<noteq> None then n\<lparr>us_local_port := Some p, us_rtp := t1, us_rtcp := t2\<rparr> else s4, pool1)"
        unfolding start [symmetric] using Some False unfolding us_startup_def Let_def
        by (cases e1; cases e2) (simp_all add: a new t1 t2 s4_def)
      then have "ok = False" "s = n\<lparr>us_local_port := Some p, us_rtp := t1\<rparr> \<or>
          s = n\<lparr>us_local_port := Some p, us_rtp := t1, us_rtcp := t2\<rparr> \<or> s = s4" by (simp_all split: if_splits)
      then have "ok = False \<and> us_local_port s = Some p \<and> us_stream s = Some stream \<and> us_remote_rtp s = rtp \<and> us_inv s"
        by (elim disjE) (simp_all add: new f1 f2 t0 s4_def us_inv_def)
      then show ?thesis by (simp add: used)
    qed
  qed
  then show "us_inv s" "us_pool s pool'" "us_remote_rtp s = rtp" "us_stream s = Some stream"
    "ok \<Longrightarrow> start new_rtp_sender = (True, the (us_sender s)) \<and> us_sender s \<noteq> None \<and> ut_open (us_rtp s) \<and>
       ut_write_queue (us_rtp s) = [] \<and> ut_wire (us_rtp s) = []" by simp_all
qed

lemma us_run_inv:
  assumes "us_run onsend report x"
  shows "us_inv (fst x) \<and> us_pool (fst x) (snd x)"
  using assms
proof induction
  case (us_run_start pool u os1 os2 sb ctx start sp stream sender_id rtp rtcp ok s pool')
  from us_startup_eq(1,2) [OF us_run_start(2,1)] show ?case by simp
next
  case (us_run_step x y)
  then show ?case using us_step_inv by blast
qed

section \<open>What a session promises\<close>

text \<open>
  C21: A UDP sender session, in every order of its events, sends RTP only to the negotiated RTP
  address and RTCP only to the negotiated RTCP address. At most one report timer is pending, and
  while the session lives it has the RTCP context and the address its handler reads. The port of
  the session is never handed out again while it is held; the step that gives it up returns it
  to the pool and leaves both sockets closed.
\<close>

theorem udp_sender_bound:
  assumes "us_run onsend report (s, pool)" "us_step onsend report (s, pool) (s', pool')"
  shows "(\<forall>x \<in> set (ut_accepted (us_rtp s)). snd x = us_remote_rtp s) \<and>
    (\<forall>x \<in> set (ut_accepted (us_rtcp s)). Some (snd x) = us_remote_rtcp s) \<and>
    us_waits s \<le> 1 \<and>
    (us_stream s \<noteq> None \<and> 0 < us_waits s \<longrightarrow> us_rtcp_sender s \<noteq> None \<and> us_remote_rtcp s \<noteq> None) \<and>
    (\<forall>port. us_local_port s = Some port \<longrightarrow> fst (acquire pool) \<noteq> Some port \<and>
       (us_local_port s' = None \<longrightarrow> port \<in> set (available_ports pool') \<and> \<not> ut_open (us_rtp s') \<and> \<not> ut_open (us_rtcp s')))"
proof -
  have inv: "us_inv s" "us_pool s pool" using us_run_inv [OF assms(1)] by simp_all
  have rtp: "\<forall>x \<in> set (ut_accepted (us_rtp s)). snd x = us_remote_rtp s"
    and rtcp: "\<forall>x \<in> set (ut_accepted (us_rtcp s)). Some (snd x) = us_remote_rtcp s"
    and waits: "us_waits s \<le> of_bool (us_rtcp_reporting_started s)"
    and ctx: "us_stream s \<noteq> None \<and> us_sender s \<noteq> None \<and> us_remote_rtcp s \<noteq> None \<longrightarrow> us_rtcp_sender s \<noteq> None"
    and reporting: "us_stream s \<noteq> None \<and> us_rtcp_reporting_started s \<longrightarrow> us_remote_rtcp s \<noteq> None \<and> us_sender s \<noteq> None"
    using inv(1) by (simp_all add: us_inv_def)
  have timer: "us_waits s \<le> 1" "0 < us_waits s \<Longrightarrow> us_rtcp_reporting_started s"
    using waits by (cases "us_rtcp_reporting_started s"; simp)+
  have held: "fst (acquire pool) \<noteq> Some port" if "us_local_port s = Some port" for port
    using that inv(2) ports.acquire_exclusive [of pool port "snd (acquire pool)"] unfolding us_pool_def by (metis prod.collapse)
  have given: "port \<in> set (available_ports pool') \<and> \<not> ut_open (us_rtp s') \<and> \<not> ut_open (us_rtcp s')"
    if "us_local_port s = Some port" "us_local_port s' = None" for port
    using assms(2)
  proof (cases rule: us_step.cases)
    case (us_step_stopped self sessions sessions')
    from us_safe_shutdown_eq [OF inv(1) us_step_stopped(2)] that(1) inv(2) show ?thesis by (auto simp: us_pool_def release_def)
  next
    case (us_step_frame sent frame)
    with that us_frame_inv(2) [OF inv(1) us_step_frame(2)] show ?thesis by simp
  next
    case (us_step_timer sent1 e)
    with that us_on_timer_inv(2) [OF inv(1)] show ?thesis by simp
  qed (use that in simp_all)
  show ?thesis using rtp rtcp timer ctx reporting held given by (intro conjI) blast+
qed

text \<open>The frames of the PS output reach a session whose socket takes every datagram at once.\<close>

fun us_frames :: "('c \<Rightarrow> bytes \<Rightarrow> int \<times> 'c) \<Rightarrow> mpeg_ps_frame list \<Rightarrow> 'c udp_sender_session \<Rightarrow> 'c udp_sender_session option" where
  "us_frames onsend [] s = Some s"
| "us_frames onsend (f # fs) s =
     (case us_frame onsend (\<lambda>_. Sent) f s of None \<Rightarrow> None | Some s' \<Rightarrow> us_frames onsend fs s')"

definition us_ready :: "'c udp_sender_session \<Rightarrow> bool" where
  "us_ready s \<longleftrightarrow> us_stream s \<noteq> None \<and> ut_open (us_rtp s) \<and> ut_write_queue (us_rtp s) = []"

lemma us_send_packet_wire:
  assumes "us_ready s"
  shows "us_ready (us_send_packet onsend Sent packet s)" "us_sender (us_send_packet onsend Sent packet s) = us_sender s"
    "us_remote_rtp (us_send_packet onsend Sent packet s) = us_remote_rtp s"
    "ut_wire (us_rtp (us_send_packet onsend Sent packet s)) = ut_wire (us_rtp s) @ [(packet, us_remote_rtp s)]"
  using assms unfolding us_ready_def us_send_packet_def Let_def
  by (auto simp: udp_write_def us_shutdown_def us_schedule_rtcp_def split: prod.splits)

lemma us_send_packets_wire:
  assumes "us_ready s"
  shows "us_ready (fold (\<lambda>(i, p). us_send_packet onsend Sent p) (enumerate n ps) s) \<and>
    us_sender (fold (\<lambda>(i, p). us_send_packet onsend Sent p) (enumerate n ps) s) = us_sender s \<and>
    us_remote_rtp (fold (\<lambda>(i, p). us_send_packet onsend Sent p) (enumerate n ps) s) = us_remote_rtp s \<and>
    ut_wire (us_rtp (fold (\<lambda>(i, p). us_send_packet onsend Sent p) (enumerate n ps) s)) =
      ut_wire (us_rtp s) @ map (\<lambda>p. (p, us_remote_rtp s)) ps"
  using assms
proof (induction ps arbitrary: s n)
  case (Cons p ps)
  note step = us_send_packet_wire [OF Cons.prems, of onsend p]
  from Cons.IH [OF step(1), of "Suc n"] step(2-4) show ?case by simp
qed simp

lemma us_frame_wire:
  assumes "us_ready s" "us_sender s = Some sender" "on_ps_frame f sender = Some sender'" "rs_packets sender' = rs_packets sender @ qs"
  shows "\<exists>s'. us_frame onsend (\<lambda>_. Sent) f s = Some s' \<and> us_ready s' \<and> us_sender s' = Some sender' \<and>
    us_remote_rtp s' = us_remote_rtp s \<and> ut_wire (us_rtp s') = ut_wire (us_rtp s) @ map (\<lambda>q. (q, us_remote_rtp s)) qs"
proof -
  define s1 where "s1 = fold (\<lambda>(i, p). us_send_packet onsend Sent p) (enumerate 0 qs) (s\<lparr>us_sender := Some sender'\<rparr>)"
  have "us_ready (s\<lparr>us_sender := Some sender'\<rparr>)" using assms(1) by (simp add: us_ready_def)
  from us_send_packets_wire [OF this, of onsend 0 qs, folded s1_def]
  have s1: "us_ready s1" "us_sender s1 = Some sender'" "us_remote_rtp s1 = us_remote_rtp s"
    "ut_wire (us_rtp s1) = ut_wire (us_rtp s) @ map (\<lambda>q. (q, us_remote_rtp s)) qs" by simp_all
  have "us_frame onsend (\<lambda>_. Sent) f s = Some (if rs_ends sender' \<noteq> rs_ends sender then us_shutdown s1 else s1)"
    by (simp add: us_frame_def assms(2-4) s1_def Let_def)
  with s1 show ?thesis by (simp add: us_shutdown_def us_ready_def)
qed

lemma us_frames_wire:
  assumes "us_ready s" "us_sender s = Some sender" "on_ps_frames fs sender = Some sender'" "emitted pt ssrc ps sender"
  shows "\<exists>s' qs. us_frames onsend fs s = Some s' \<and> rs_packets sender' = rs_packets sender @ qs \<and>
    ut_wire (us_rtp s') = ut_wire (us_rtp s) @ map (\<lambda>q. (q, us_remote_rtp s)) qs"
  using assms
proof (induction fs arbitrary: s sender ps)
  case (Cons f fs)
  from on_ps_frames_emits [OF Cons.prems(4), of "[f]"] obtain sender1 qs1 where
    one: "on_ps_frame f sender = Some sender1" "emitted pt ssrc (ps @ qs1) sender1" by (auto split: option.splits)
  then have qs1: "rs_packets sender1 = rs_packets sender @ map wire qs1" using Cons.prems(4) by (simp add: emitted_def)
  from us_frame_wire [OF Cons.prems(1,2) one(1) qs1, of onsend] obtain s1 where
    s1: "us_frame onsend (\<lambda>_. Sent) f s = Some s1" "us_ready s1" "us_sender s1 = Some sender1" "us_remote_rtp s1 = us_remote_rtp s"
    "ut_wire (us_rtp s1) = ut_wire (us_rtp s) @ map (\<lambda>q. (q, us_remote_rtp s)) (map wire qs1)" by (elim exE conjE)
  have "on_ps_frames fs sender1 = Some sender'" using Cons.prems(3) one(1) by simp
  from Cons.IH [OF s1(2,3) this one(2)] obtain s' qs where "us_frames onsend fs s1 = Some s'" "rs_packets sender' = rs_packets sender1 @ qs"
    "ut_wire (us_rtp s') = ut_wire (us_rtp s1) @ map (\<lambda>q. (q, us_remote_rtp s1)) qs" by (elim exE conjE)
  with s1 qs1 show ?case by (intro exI [of _ s'] exI [of _ "map wire qs1 @ qs"]) simp
qed simp


definition sample_udp_sender :: "(unit udp_sender_session \<times> media_port_pool)" where
  "sample_udp_sender = snd (us_startup False calm calm True (Some ()) (sender_startup 5 65535 True sample_tracks 96 7) True new_media_port_pool
     (new_udp_sender ''cam'' ''s1'' ([10, 0, 0, 1], 6000) (Some ([10, 0, 0, 1], 6001))))"

lemma sample_udp_sender_started:
  "us_startup False calm calm True (Some ()) (sender_startup 5 65535 True sample_tracks 96 7) True new_media_port_pool
     (new_udp_sender ''cam'' ''s1'' ([10, 0, 0, 1], 6000) (Some ([10, 0, 0, 1], 6001))) = (True, sample_udp_sender)"
  "us_sender (fst sample_udp_sender) = Some (snd (sender_startup 5 65535 True sample_tracks 96 7 new_rtp_sender))"
  "us_local_port (fst sample_udp_sender) = Some 49152"
proof -
  define sender where "sender = snd (sender_startup 5 65535 True sample_tracks 96 7 new_rtp_sender)"
  have st: "sender_startup 5 65535 True sample_tracks 96 7 new_rtp_sender = (True, sender)" using sample_startup by (simp add: sender_def)
  have acq: "acquire new_media_port_pool = (Some 49152, snd (acquire new_media_port_pool))"
    using new_pool_last new_pool_nonempty by (simp add: acquire_def Let_def)
  obtain pool where pool: "acquire new_media_port_pool = (Some 49152, pool)" using acq by blast
  show "us_startup False calm calm True (Some ()) (sender_startup 5 65535 True sample_tracks 96 7) True new_media_port_pool
     (new_udp_sender ''cam'' ''s1'' ([10, 0, 0, 1], 6000) (Some ([10, 0, 0, 1], 6001))) = (True, sample_udp_sender)"
    "us_sender (fst sample_udp_sender) = Some (snd (sender_startup 5 65535 True sample_tracks 96 7 new_rtp_sender))"
    "us_local_port (fst sample_udp_sender) = Some 49152"
    by (simp_all add: sample_udp_sender_def us_startup_def us_start_sender_def pool st udp_startup_def calm_def new_udp_sender_def Let_def)
qed


text \<open>The sample session is told to stop, and its posted shutdown runs: the port is back.\<close>

theorem udp_sender_bound_witness:
  "\<exists>s s' sessions' pool'. us_run (\<lambda>c _. (0, c)) (\<lambda>c. (1, [9], c)) (s :: unit udp_sender_session, snd sample_udp_sender) \<and>
     us_local_port s = Some 49152 \<and> us_safe_shutdown 3 s new_session_registry (snd sample_udp_sender) = (s', sessions', pool') \<and>
     49152 \<in> set (available_ports pool') \<and> \<not> ut_open (us_rtp s')"
proof -
  define s where "s = us_shutdown (fst sample_udp_sender)"
  have started: "us_startup False calm calm True (Some ()) (sender_startup 5 65535 True sample_tracks 96 7) True new_media_port_pool
     (new_udp_sender ''cam'' ''s1'' ([10, 0, 0, 1], 6000) (Some ([10, 0, 0, 1], 6001))) = (True, fst sample_udp_sender, snd sample_udp_sender)"
    using sample_udp_sender_started(1) by simp
  from us_run_step [OF us_run_start [OF new_media_port_pool_inv started] us_step_stop]
  have run: "us_run (\<lambda>c _. (0, c)) (\<lambda>c. (1, [9], c)) (s, snd sample_udp_sender)" by (simp add: s_def)
  obtain s' x where x: "us_safe_shutdown 3 s new_session_registry (snd sample_udp_sender) = (s', x)" by (rule prod.exhaust)
  obtain sessions' pool' where "x = (sessions', pool')" by (rule prod.exhaust)
  with x have down: "us_safe_shutdown 3 s new_session_registry (snd sample_udp_sender) = (s', sessions', pool')" by simp
  have port: "us_local_port s = Some 49152" "0 < us_posted s" by (simp_all add: s_def sample_udp_sender_started us_shutdown_def)
  have "us_inv s" using us_run_inv [OF run] by simp
  from us_safe_shutdown_eq(2) [OF this down] udp_sender_bound [OF run us_step_stopped [OF port(2) down]] port(1)
  have "49152 \<in> set (available_ports pool')" "\<not> ut_open (us_rtp s')" by blast+
  with run port(1) down show ?thesis by blast
qed

end
