(* ===== verification/Spec2Isabelle.thy ===== *)
theory Spec2Isabelle
  imports Rtmp_Timestamp Port_Pool Worker_Pool Tcp_Transport Udp_Transport
    Media_Stream Session_Registry Stun_Props Hls_Segmenter Gb28181_Sender
    Gb28181_Receiver Worker_Context Idle_Timer Gb28181_Udp_Sender
begin

text \<open>
  Header.
\<close>

end
